theory Spec2Isabelle
  imports Main
begin

section \<open>Strings\<close>

text \<open>
  The program is Python; its strings are sequences of code points.  They are modelled as
  \<^typ>\<open>string\<close>, a list of characters with the code points 0 to 255 (ISO-8859-1).  That is
  the alphabet in which the HTTP library hands header values to the program; a URL or a
  page with a code point above 255 is outside the model.  \<open>of_char\<close> is Python's \<open>ord\<close>.
\<close>

definition lower_char :: "char \<Rightarrow> char" where
  \<comment> \<open>\<open>str.lower()\<close> on one code point below 256: A-Z, and the upper-case letters
      U+00C0 to U+00DE except the multiplication sign U+00D7, move up by 32.\<close>
  "lower_char c = (let n = (of_char c :: nat) in
     if (65 \<le> n \<and> n \<le> 90) \<or> (192 \<le> n \<and> n \<le> 222 \<and> n \<noteq> 215)
     then char_of (n + 32) else c)"

definition lower :: "string \<Rightarrow> string" where
  "lower s = map lower_char s"

definition startswith :: "string \<Rightarrow> string \<Rightarrow> bool" where
  "startswith s p = (take (length p) s = p)"

definition endswith :: "string \<Rightarrow> string \<Rightarrow> bool" where
  "endswith s p = (length p \<le> length s \<and> drop (length s - length p) s = p)"

fun str_in :: "string \<Rightarrow> string \<Rightarrow> bool" where
  \<comment> \<open>\<open>sub in s\<close>\<close>
  "str_in sub [] = (sub = [])"
| "str_in sub (c # cs) = (startswith (c # cs) sub \<or> str_in sub cs)"

definition strip :: "string \<Rightarrow> char \<Rightarrow> string" where
  \<comment> \<open>\<open>s.strip(c)\<close> for a one-character argument\<close>
  "strip s c = rev (dropWhile (\<lambda>x. x = c) (rev (dropWhile (\<lambda>x. x = c) s)))"

fun rfind :: "string \<Rightarrow> char \<Rightarrow> int" where
  \<comment> \<open>\<open>s.rfind(c)\<close>: the highest index of \<open>c\<close>, or -1\<close>
  "rfind [] c = - 1"
| "rfind (x # xs) c =
     (let r = rfind xs c in if 0 \<le> r then r + 1 else if x = c then 0 else - 1)"

definition slice :: "string \<Rightarrow> int \<Rightarrow> int \<Rightarrow> string" where
  \<comment> \<open>\<open>s[i:j]\<close> for \<open>0 \<le> i\<close>; a slice never raises\<close>
  "slice s i j = take (nat (j - i)) (drop (nat i) s)"

section \<open>Filename sanitization\<close>

text \<open>
  \<open>os.path.splitext\<close> on a POSIX system (\<open>genericpath._splitext\<close> with separator \<open>/\<close>, no
  alternative separator and extension separator \<open>.\<close>): the extension starts at the last
  dot of the last path component, and leading dots of that component do not count.
\<close>

function skip_leading_dots :: "string \<Rightarrow> int \<Rightarrow> int \<Rightarrow> string \<times> string" where
  "skip_leading_dots p filenameIndex dotIndex =
     (if filenameIndex < dotIndex then
        (if slice p filenameIndex (filenameIndex + 1) \<noteq> ''.''
         then (slice p 0 dotIndex, drop (nat dotIndex) p)
         else skip_leading_dots p (filenameIndex + 1) dotIndex)
      else (p, []))"
  by pat_completeness auto
termination
  by (relation "measure (\<lambda>(p, i, d). nat (d - i))") auto

declare skip_leading_dots.simps [simp del]

definition splitext :: "string \<Rightarrow> string \<times> string" where
  "splitext p = (let sepIndex = rfind p CHR ''/''; dotIndex = rfind p CHR ''.'' in
     if dotIndex > sepIndex then skip_leading_dots p (sepIndex + 1) dotIndex
     else (p, []))"

definition is_az09 :: "char \<Rightarrow> bool" where
  \<comment> \<open>the character class \<open>[a-z0-9]\<close>\<close>
  "is_az09 c = (let n = (of_char c :: nat) in (97 \<le> n \<and> n \<le> 122) \<or> (48 \<le> n \<and> n \<le> 57))"

definition sub_non_alnum :: "string \<Rightarrow> string" where
  \<comment> \<open>\<open>re.sub(r"[^a-z0-9]", "_", s)\<close>\<close>
  "sub_non_alnum s = map (\<lambda>c. if is_az09 c then c else CHR ''_'') s"

function sub_underscores :: "string \<Rightarrow> string" where
  \<comment> \<open>\<open>re.sub(r"_+", "_", s)\<close>: every maximal run of underscores becomes one\<close>
  "sub_underscores [] = []"
| "sub_underscores (c # cs) =
     (if c = CHR ''_'' then CHR ''_'' # sub_underscores (dropWhile (\<lambda>x. x = CHR ''_'') cs)
      else c # sub_underscores cs)"
  by pat_completeness auto
termination
  by (relation "measure length") (auto simp: length_dropWhile_le less_Suc_eq_le)

definition clean_stem :: "string \<Rightarrow> string" where
  \<comment> \<open>lines 117 to 120: the four rewritings of \<open>name_part\<close>\<close>
  "clean_stem name_part =
     strip (sub_underscores (sub_non_alnum (lower name_part))) CHR ''_''"

definition sanitize :: "string \<Rightarrow> string" where
  \<comment> \<open>lines 116 to 121\<close>
  "sanitize filename = (case splitext filename of (name_part, ext) \<Rightarrow>
     clean_stem name_part @ lower ext)"

text \<open>The words of the specification: the stem is the part before the last dot, the
  extension the rest; a name without a dot is all stem.\<close>

definition stem_of :: "string \<Rightarrow> string" where
  "stem_of s = (let i = rfind s CHR ''.'' in if 0 \<le> i then take (nat i) s else s)"

definition extension_of :: "string \<Rightarrow> string" where
  "extension_of s = (let i = rfind s CHR ''.'' in if 0 \<le> i then drop (nat i) s else [])"

definition stem_ok :: "string \<Rightarrow> bool" where
  \<comment> \<open>only \<open>[a-z0-9_]\<close>, no two underscores in a row, none at either end\<close>
  "stem_ok s = (list_all (\<lambda>c. is_az09 c \<or> c = CHR ''_'') s
     \<and> \<not> str_in ''__'' s
     \<and> \<not> startswith s ''_'' \<and> \<not> endswith s ''_'')"


section \<open>Regular expressions\<close>

text \<open>
  The two patterns of \<open>download_pdf\<close> are sequences of character classes, each taken once
  or under a greedy \<open>?\<close>, \<open>*\<close> or \<open>+\<close>, with one capturing group around a single class.
  \<open>re_match\<close> is the backtracking matcher of Python's \<open>re\<close> for such patterns: a
  quantified class first takes as many characters as it can and gives them back one by
  one while the rest of the pattern fails.  The third component of an atom says whether
  it is the capturing group; the matcher returns the text of group 1.
\<close>

datatype quant = One | Opt | Star | Plus

type_synonym atom = "(char \<Rightarrow> bool) \<times> quant \<times> bool"

fun min_count :: "quant \<Rightarrow> nat" where
  "min_count One = 1"
| "min_count Opt = 0"
| "min_count Star = 0"
| "min_count Plus = 1"

fun max_count :: "quant \<Rightarrow> (char \<Rightarrow> bool) \<Rightarrow> string \<Rightarrow> nat" where
  "max_count One cls s = min 1 (length (takeWhile cls s))"
| "max_count Opt cls s = min 1 (length (takeWhile cls s))"
| "max_count Star cls s = length (takeWhile cls s)"
| "max_count Plus cls s = length (takeWhile cls s)"

function re_match :: "atom list \<Rightarrow> string \<Rightarrow> string \<Rightarrow> string option"
  and re_try :: "(char \<Rightarrow> bool) \<Rightarrow> quant \<Rightarrow> bool \<Rightarrow> atom list \<Rightarrow> string \<Rightarrow> string \<Rightarrow> nat \<Rightarrow> string option"
where
  "re_match [] s grp = Some grp"
| "re_match ((cls, q, g) # rest) s grp = re_try cls q g rest s grp (max_count q cls s)"
| "re_try cls q g rest s grp k =
     (if k < min_count q then None
      else case re_match rest (drop k s) (if g then take k s else grp) of
             Some r \<Rightarrow> Some r
           | None \<Rightarrow> if k = 0 then None else re_try cls q g rest s grp (k - 1))"
  by pat_completeness auto
termination
  by (relation "inv_image (less_than <*lex*> less_than)
        (\<lambda>x. case x of Inl (p, s, grp) \<Rightarrow> (2 * length p, 0)
                     | Inr (cls, q, g, rest, s, grp, k) \<Rightarrow> (2 * length rest + 1, k))")
     auto

declare re_try.simps [simp del]

fun re_search :: "atom list \<Rightarrow> string \<Rightarrow> string option" where
  \<comment> \<open>\<open>re.search\<close>: the match at the leftmost position that has one\<close>
  "re_search p [] = re_match p [] []"
| "re_search p (c # cs) =
     (case re_match p (c # cs) [] of Some g \<Rightarrow> Some g | None \<Rightarrow> re_search p cs)"

definition lit :: "char \<Rightarrow> atom" where
  "lit x = (\<lambda>c. c = x, One, False)"

definition lit_ci :: "char \<Rightarrow> atom" where
  \<comment> \<open>a lower-case letter under \<open>re.IGNORECASE\<close>\<close>
  "lit_ci x = (\<lambda>c. lower_char c = x, One, False)"

definition is_space :: "char \<Rightarrow> bool" where
  \<comment> \<open>\<open>\s\<close> of a \<open>str\<close> pattern, below 256: tab to carriage return, the separators
      U+001C to U+001F, space, U+0085 and U+00A0\<close>
  "is_space c = (let n = (of_char c :: nat) in
     (9 \<le> n \<and> n \<le> 13) \<or> (28 \<le> n \<and> n \<le> 32) \<or> n = 133 \<or> n = 160)"

definition filename_star_pattern :: "atom list" where
  \<comment> \<open>\<open>filename\*\s*=\s*[^']*''([^;\r\n]+)\<close>\<close>
  "filename_star_pattern = map lit_ci ''filename'' @
     [lit CHR ''*'', (is_space, Star, False), lit CHR ''='', (is_space, Star, False),
      (\<lambda>c. c \<noteq> CHR 0x27, Star, False), lit CHR 0x27, lit CHR 0x27,
      (\<lambda>c. c \<noteq> CHR '';'' \<and> c \<noteq> CHR 0x0D \<and> c \<noteq> CHR 0x0A, Plus, True)]"

definition filename_pattern :: "atom list" where
  \<comment> \<open>\<open>filename\s*=\s*\"?([^\";\r\n]+)\"?\<close>\<close>
  "filename_pattern = map lit_ci ''filename'' @
     [(is_space, Star, False), lit CHR ''='', (is_space, Star, False),
      (\<lambda>c. c = CHR 0x22, Opt, False),
      (\<lambda>c. c \<noteq> CHR 0x22 \<and> c \<noteq> CHR '';'' \<and> c \<noteq> CHR 0x0D \<and> c \<noteq> CHR 0x0A, Plus, True),
      (\<lambda>c. c = CHR 0x22, Opt, False)]"

section \<open>The world outside the program\<close>

text \<open>
  Exceptions are values.  \<open>HTTPError\<close> and \<open>RequestException\<close> stand for the classes below
  \<open>requests.exceptions.RequestException\<close>, the other constructors for classes below
  \<open>Exception\<close> that are not.  Signals that are not below \<open>Exception\<close>
  (\<open>KeyboardInterrupt\<close>, \<open>SystemExit\<close>) are not modelled.
\<close>

datatype exn =
    HTTPError nat
  | RequestException string
  | ValueError string
  | OSError string
  | Exception string

fun is_request_exception :: "exn \<Rightarrow> bool" where
  "is_request_exception (HTTPError _) = True"
| "is_request_exception (RequestException _) = True"
| "is_request_exception _ = False"

text \<open>What the program reads of a \<open>requests.Response\<close>.  \<open>headers\<close> is the
  case-insensitive dictionary, keyed by the lower-cased header name; \<open>iter_content\<close> is
  the list of chunks the body stream yields, and \<open>stream_error\<close> what it raises after
  them, if anything; \<open>body_text\<close> is the attribute \<open>response.text\<close>.\<close>

record response =
  status_code :: nat
  headers :: "string \<rightharpoonup> string"
  body_text :: string
  iter_content :: "string list"
  stream_error :: "exn option"

text \<open>
  What the program prints: one constructor for each of the five status lines of
  \<open>download_pdf\<close> (lines 89, 128, 137, 140 and 142), and \<open>PageFetchFailed\<close> for the line
  of \<open>get_url_content\<close> (line 49).
\<close>

datatype report =
    Downloaded string
  | SkippedExisting string
  | SkippedNotPdf string
  | FetchFailed exn
  | UnexpectedError exn
  | PageFetchFailed exn

text \<open>
  The libraries and the operating system, as far as the program calls them:
  \<^item> \<open>requests_get url stream\<close> is \<open>requests.get(url=url, stream=stream)\<close>;
  \<^item> \<open>os_error path\<close> is the error with which the operating system refuses to create or
    open \<open>path\<close>, if it does;
  \<^item> \<open>validators_url s\<close> is \<open>validators.url(s) is True\<close>;
  \<^item> \<open>find_all_a_href html\<close> is the list of the \<open>href\<close> values of the tags that
    \<open>BeautifulSoup(html, "html.parser").find_all("a", href=True)\<close> returns, in its order;
  \<^item> \<open>bracketed_netloc_ok netloc\<close> says whether \<open>urllib.parse\<close> accepts a network
    location with a bracketed host (newer releases validate the host as an IP literal);
  \<^item> \<open>print_error line\<close> is the exception that \<open>print\<close> raises on this line, if it raises:
    a \<open>UnicodeEncodeError\<close> where the console cannot encode the line, an \<open>OSError\<close> where
    standard output is closed.
\<close>

record world =
  requests_get :: "string \<Rightarrow> bool \<Rightarrow> exn + response"
  os_error :: "string \<Rightarrow> string option"
  validators_url :: "string \<Rightarrow> bool"
  find_all_a_href :: "string \<Rightarrow> string list"
  bracketed_netloc_ok :: "string \<Rightarrow> bool"
  print_error :: "report \<Rightarrow> exn option"

definition print_line :: "world \<Rightarrow> report \<Rightarrow> exn + report" where
  \<comment> \<open>\<open>print(line)\<close>: the line printed, or the exception raised\<close>
  "print_line w line = (case print_error w line of Some e \<Rightarrow> Inl e | None \<Rightarrow> Inr line)"

definition headers_get :: "(string \<rightharpoonup> string) \<Rightarrow> string \<Rightarrow> string \<Rightarrow> string" where
  \<comment> \<open>\<open>response.headers.get(key, default=d)\<close>\<close>
  "headers_get h key d = (case h (lower key) of Some v \<Rightarrow> v | None \<Rightarrow> d)"

definition raise_for_status :: "response \<Rightarrow> exn + unit" where
  "raise_for_status r =
     (if 400 \<le> status_code r \<and> status_code r < 600 then Inl (HTTPError (status_code r))
      else Inr ())"

text \<open>The file system: the contents of the regular files and the set of directories, by
  path as the program writes it.\<close>

record filesystem =
  files :: "string \<rightharpoonup> string"
  dirs :: "string set"

definition isfile :: "filesystem \<Rightarrow> string \<Rightarrow> bool" where
  "isfile fs p = (files fs p \<noteq> None)"

definition rstrip_slashes :: "string \<Rightarrow> string" where
  "rstrip_slashes p = rev (dropWhile (\<lambda>c. c = CHR ''/'') (rev p))"

definition isdir :: "filesystem \<Rightarrow> string \<Rightarrow> bool" where
  \<comment> \<open>a path with trailing slashes, or with a last component \<open>.\<close>, names the directory
      before them\<close>
  "isdir fs p = (p \<in> dirs fs
     \<or> (endswith p ''/'' \<and> rstrip_slashes p \<in> dirs fs)
     \<or> (endswith p ''/.'' \<and> rstrip_slashes (take (length p - 1) p) \<in> dirs fs))"

definition path_exists :: "filesystem \<Rightarrow> string \<Rightarrow> bool" where
  \<comment> \<open>\<open>os.path.exists\<close>\<close>
  "path_exists fs p = (isfile fs p \<or> isdir fs p)"

definition makedirs :: "world \<Rightarrow> filesystem \<Rightarrow> string \<Rightarrow> exn + filesystem" where
  \<comment> \<open>\<open>os.makedirs(name, exist_ok=True)\<close>\<close>
  "makedirs w fs name =
     (case os_error w name of Some msg \<Rightarrow> Inl (OSError msg)
      | None \<Rightarrow>
          if name = [] then Inl (OSError ''FileNotFoundError'')
          else if isfile fs name then Inl (OSError ''FileExistsError'')
          else Inr (fs\<lparr>dirs := insert name (dirs fs)\<rparr>))"

definition open_wb :: "world \<Rightarrow> filesystem \<Rightarrow> string \<Rightarrow> exn + filesystem" where
  \<comment> \<open>\<open>open(path, "wb")\<close>: the file is created, or truncated\<close>
  "open_wb w fs p =
     (case os_error w p of Some msg \<Rightarrow> Inl (OSError msg)
      | None \<Rightarrow>
          if isdir fs p then Inl (OSError ''IsADirectoryError'')
          else Inr (fs\<lparr>files := (files fs)(p \<mapsto> [])\<rparr>))"

definition file_write :: "filesystem \<Rightarrow> string \<Rightarrow> string \<Rightarrow> filesystem" where
  "file_write fs p content =
     fs\<lparr>files := (files fs)(p \<mapsto> (case files fs p of Some old \<Rightarrow> old | None \<Rightarrow> []) @ content)\<rparr>"

definition path_join :: "string \<Rightarrow> string \<Rightarrow> string" where
  \<comment> \<open>\<open>os.path.join(a, b)\<close> on POSIX\<close>
  "path_join a b =
     (if startswith b ''/'' then b
      else if a = [] \<or> endswith a ''/'' then a @ b
      else a @ ''/'' @ b)"

definition basename :: "string \<Rightarrow> string" where
  \<comment> \<open>\<open>os.path.basename\<close> on POSIX\<close>
  "basename p = drop (nat (rfind p CHR ''/'' + 1)) p"

section \<open>URLs\<close>

definition is_hexdig :: "char \<Rightarrow> bool" where
  "is_hexdig c = (c \<in> set ''0123456789ABCDEFabcdef'')"

definition hexval :: "char \<Rightarrow> nat" where
  "hexval c = (let n = (of_char c :: nat) in
     if 48 \<le> n \<and> n \<le> 57 then n - 48 else if 65 \<le> n \<and> n \<le> 70 then n - 55 else n - 87)"

text \<open>
  \<open>urllib.parse.unquote\<close>: every \<open>%\<close> that two hexadecimal digits follow becomes the byte
  they denote, any other \<open>%\<close> stays.  Python then decodes the bytes as UTF-8, with U+FFFD
  for what is malformed; here a byte of 128 or more stays the one character with that
  code.  The two agree on which characters of the result are ASCII and on their order and
  distance from the end, which is all that the suffix test of \<open>parse_html\<close> reads.
\<close>

fun unquote :: "string \<Rightarrow> string" where
  "unquote (c # a # b # rest) =
     (if c = CHR ''%'' \<and> is_hexdig a \<and> is_hexdig b
      then char_of (16 * hexval a + hexval b) # unquote rest
      else c # unquote (a # b # rest))"
| "unquote s = s"

definition find_from :: "string \<Rightarrow> char \<Rightarrow> int \<Rightarrow> int" where
  \<comment> \<open>\<open>s.find(c, start)\<close> for \<open>0 \<le> start\<close>: the lowest index from \<open>start\<close> on, or -1\<close>
  "find_from s c start =
     (let t = drop (nat start) s in
      if c \<in> set t then start + int (length (takeWhile (\<lambda>x. x \<noteq> c) t)) else - 1)"

definition is_ascii_alpha :: "char \<Rightarrow> bool" where
  "is_ascii_alpha c = (let n = (of_char c :: nat) in (65 \<le> n \<and> n \<le> 90) \<or> (97 \<le> n \<and> n \<le> 122))"

definition scheme_chars :: "string" where
  "scheme_chars = ''abcdefghijklmnopqrstuvwxyzABCDEFGHIJKLMNOPQRSTUVWXYZ0123456789+-.''"

definition uses_params :: "string list" where
  "uses_params = [[], ''ftp'', ''hdl'', ''prospero'', ''http'', ''imap'', ''https'', ''shttp'',
     ''rtsp'', ''rtspu'', ''sip'', ''sips'', ''mms'', ''sftp'', ''tel'']"

text \<open>
  \<open>urllib.parse.urlsplit\<close>, as far as the scheme and the path go: leading C0 controls and
  spaces are stripped, tabs and line breaks removed, the scheme and then the network
  location split off, then fragment and query.  A bracket without its partner in the
  network location raises \<open>ValueError\<close>.  The check of the network location under NFKC
  normalisation never fails on code points below 256.
\<close>

definition urlsplit :: "world \<Rightarrow> string \<Rightarrow> exn + (string \<times> string)" where
  "urlsplit w url0 =
     (let url1 = dropWhile (\<lambda>c. (of_char c :: nat) \<le> 32) url0;
          url2 = filter (\<lambda>c. c \<noteq> CHR 0x09 \<and> c \<noteq> CHR 0x0D \<and> c \<noteq> CHR 0x0A) url1;
          i = find_from url2 CHR '':'' 0;
          has_scheme = (i > 0 \<and> is_ascii_alpha (hd url2)
                        \<and> list_all (\<lambda>c. c \<in> set scheme_chars) (take (nat i) url2));
          scheme = (if has_scheme then lower (take (nat i) url2) else []);
          url3 = (if has_scheme then drop (nat (i + 1)) url2 else url2);
          no_fragment_query = (\<lambda>u. takeWhile (\<lambda>c. c \<noteq> CHR ''?'') (takeWhile (\<lambda>c. c \<noteq> CHR ''#'') u))
      in if take 2 url3 = ''//'' then
           (let netloc = takeWhile (\<lambda>c. c \<notin> set ''/?#'') (drop 2 url3);
                url4 = dropWhile (\<lambda>c. c \<notin> set ''/?#'') (drop 2 url3)
            in if (CHR ''['' \<in> set netloc \<and> CHR '']'' \<notin> set netloc)
                  \<or> (CHR '']'' \<in> set netloc \<and> CHR ''['' \<notin> set netloc)
               then Inl (ValueError ''Invalid IPv6 URL'')
               else if CHR ''['' \<in> set netloc \<and> CHR '']'' \<in> set netloc
                       \<and> \<not> bracketed_netloc_ok w netloc
               then Inl (ValueError ''Invalid IPv6 URL'')
               else Inr (scheme, no_fragment_query url4))
         else Inr (scheme, no_fragment_query url3))"

definition splitparams :: "string \<Rightarrow> string" where
  \<comment> \<open>the first component of \<open>urllib.parse._splitparams\<close>, called when \<open>;\<close> is in \<open>url\<close>\<close>
  "splitparams url =
     (if CHR ''/'' \<in> set url then
        (let i = find_from url CHR '';'' (rfind url CHR ''/'') in
         if i < 0 then url else take (nat i) url)
      else take (nat (find_from url CHR '';'' 0)) url)"

definition urlparse_path :: "world \<Rightarrow> string \<Rightarrow> exn + string" where
  \<comment> \<open>\<open>urllib.parse.urlparse(url).path\<close>\<close>
  "urlparse_path w url =
     (case urlsplit w url of
        Inl e \<Rightarrow> Inl e
      | Inr (scheme, path) \<Rightarrow>
          Inr (if scheme \<in> set uses_params \<and> CHR '';'' \<in> set path then splitparams path
               else path))"

section \<open>The downloader\<close>

definition fallback_filename :: "world \<Rightarrow> string \<Rightarrow> exn + string" where
  \<comment> \<open>lines 110 to 113\<close>
  "fallback_filename w url =
     (case urlparse_path w url of
        Inl e \<Rightarrow> Inl e
      | Inr path \<Rightarrow>
          (let filename = basename path in
           Inr (if \<not> endswith filename ''.pdf'' then filename @ ''.pdf'' else filename)))"

definition resolve_filename :: "world \<Rightarrow> string \<Rightarrow> string \<Rightarrow> exn + string" where
  \<comment> \<open>lines 96 to 113: the filename before sanitization\<close>
  "resolve_filename w content_disposition url =
     (case re_search filename_star_pattern content_disposition of
        Some g \<Rightarrow> Inr (strip g CHR 0x22)
      | None \<Rightarrow>
          (case re_search filename_pattern content_disposition of
             Some g \<Rightarrow> Inr (strip g CHR 0x22)
           | None \<Rightarrow> fallback_filename w url))"

fun write_chunks :: "filesystem \<Rightarrow> string \<Rightarrow> string list \<Rightarrow> filesystem" where
  \<comment> \<open>lines 133 to 135\<close>
  "write_chunks fs p [] = fs"
| "write_chunks fs p (chunk # rest) =
     write_chunks (if chunk \<noteq> [] then file_write fs p chunk else fs) p rest"

definition download_pdf_try :: "world \<Rightarrow> string \<Rightarrow> string \<Rightarrow> filesystem \<Rightarrow> (exn + report) \<times> filesystem" where
  \<comment> \<open>the body of the \<open>try\<close>, lines 84 to 137: the exception that leaves the body or the
      status line it printed, and the file system as the body leaves it\<close>
  "download_pdf_try w url download_dir fs =
     (case requests_get w url True of
        Inl e \<Rightarrow> (Inl e, fs)
      | Inr response \<Rightarrow>
     (case raise_for_status response of
        Inl e \<Rightarrow> (Inl e, fs)
      | Inr _ \<Rightarrow>
     (let content_type = headers_get (headers response) ''Content-Type'' [] in
      if \<not> str_in ''application/pdf'' (lower content_type) then (print_line w (SkippedNotPdf url), fs)
      else
     (let content_disposition = headers_get (headers response) ''Content-Disposition'' [] in
      case resolve_filename w content_disposition url of
        Inl e \<Rightarrow> (Inl e, fs)
      | Inr filename0 \<Rightarrow>
     (let filename = sanitize filename0 in
      case makedirs w fs download_dir of
        Inl e \<Rightarrow> (Inl e, fs)
      | Inr fs1 \<Rightarrow>
     (let file_path = path_join download_dir filename in
      if path_exists fs1 file_path then (print_line w (SkippedExisting filename), fs1)
      else
     (case open_wb w fs1 file_path of
        Inl e \<Rightarrow> (Inl e, fs1)
      | Inr fs2 \<Rightarrow>
     (let fs3 = write_chunks fs2 file_path (iter_content response) in
      case stream_error response of
        Some e \<Rightarrow> (Inl e, fs3)
      | None \<Rightarrow> (print_line w (Downloaded filename), fs3)))))))))"

definition download_pdf :: "world \<Rightarrow> string \<Rightarrow> string \<Rightarrow> filesystem \<Rightarrow> (exn + report) \<times> filesystem" where
  \<comment> \<open>lines 83 to 142: the two handlers around the body.  Each handler prints; an
      exception raised there is not caught again and leaves \<open>download_pdf\<close> (\<open>Inl\<close>)\<close>
  "download_pdf w url download_dir fs =
     (case download_pdf_try w url download_dir fs of
        (Inr r, fs') \<Rightarrow> (Inr r, fs')
      | (Inl e, fs') \<Rightarrow>
          if is_request_exception e then (print_line w (FetchFailed e), fs')
          else (print_line w (UnexpectedError e), fs'))"

section \<open>The driver\<close>

definition check_file_exists :: "filesystem \<Rightarrow> string \<Rightarrow> bool" where
  "check_file_exists fs system_path = isfile fs system_path"

definition get_url_content :: "world \<Rightarrow> string \<Rightarrow> exn + string option" where
  \<comment> \<open>only a \<open>RequestException\<close> is caught; the handler prints and the function then
      returns \<open>None\<close>\<close>
  "get_url_content w target_url =
     (let handler = (\<lambda>e. if is_request_exception e
                        then (case print_line w (PageFetchFailed e) of
                                Inl e' \<Rightarrow> Inl e' | Inr _ \<Rightarrow> Inr None)
                        else Inl e)
      in case requests_get w target_url False of
        Inl e \<Rightarrow> handler e
      | Inr response \<Rightarrow>
          (case raise_for_status response of
             Inl e \<Rightarrow> handler e
           | Inr _ \<Rightarrow> Inr (Some (body_text response))))"

definition append_write_to_file :: "world \<Rightarrow> filesystem \<Rightarrow> string \<Rightarrow> string \<Rightarrow> exn + filesystem" where
  "append_write_to_file w fs system_path content =
     (case os_error w system_path of Some msg \<Rightarrow> Inl (OSError msg)
      | None \<Rightarrow>
          if isdir fs system_path then Inl (OSError ''IsADirectoryError'')
          else Inr (file_write fs system_path content))"

definition read_a_file :: "world \<Rightarrow> filesystem \<Rightarrow> string \<Rightarrow> exn + string" where
  "read_a_file w fs system_path =
     (case os_error w system_path of Some msg \<Rightarrow> Inl (OSError msg)
      | None \<Rightarrow>
          (case files fs system_path of
             None \<Rightarrow> Inl (OSError ''FileNotFoundError'')
           | Some content \<Rightarrow> Inr content))"

fun parse_html_loop :: "string list \<Rightarrow> string list \<Rightarrow> string list" where
  \<comment> \<open>lines 57 to 62, over the tags left to visit and \<open>pdf_links\<close>\<close>
  "parse_html_loop [] pdf_links = pdf_links"
| "parse_html_loop (href # rest) pdf_links =
     (let decoded_href = unquote href in
      parse_html_loop rest
        (if endswith (lower decoded_href) ''.pdf'' then pdf_links @ [href] else pdf_links))"

definition parse_html :: "world \<Rightarrow> string \<Rightarrow> string list" where
  "parse_html w html = parse_html_loop (find_all_a_href w html) []"

definition validate_url :: "world \<Rightarrow> string \<Rightarrow> bool" where
  "validate_url w given_url = validators_url w given_url"

definition url_to_fetch :: string where
  "url_to_fetch = ''https://mydentitycolor.com/sds/''"

definition local_html_file :: string where
  "local_html_file = ''mydentitycolor.html''"

definition download_dir_PDFs :: string where
  "download_dir_PDFs = ''PDFs''"

definition site_origin :: string where
  "site_origin = ''https://mydentitycolor.com''"

fun download_loop :: "world \<Rightarrow> string \<Rightarrow> string list \<Rightarrow> filesystem \<Rightarrow> (string \<times> (exn + report)) list \<times> filesystem" where
  \<comment> \<open>lines 167 to 170; the result lists every call of \<open>download_pdf\<close>, by its URL, with
      the status line it printed or the exception it raised.  The loop has no handler: a
      call that raises is the last one\<close>
  "download_loop w download_dir [] fs = ([], fs)"
| "download_loop w download_dir (url # rest) fs =
     (if validate_url w url = False then
        (let url' = site_origin @ url in
         case download_pdf w url' download_dir fs of
           (Inl e, fs1) \<Rightarrow> ([(url', Inl e)], fs1)
         | (Inr r, fs1) \<Rightarrow>
             (case download_loop w download_dir rest fs1 of (calls, fs2) \<Rightarrow>
                ((url', Inr r) # calls, fs2)))
      else download_loop w download_dir rest fs)"

fun raised :: "(string \<times> (exn + report)) list \<Rightarrow> exn option" where
  \<comment> \<open>the exception with which the loop ended, if it ended with one\<close>
  "raised [] = None"
| "raised ((url, Inl e) # calls) = Some e"
| "raised ((url, Inr r) # calls) = raised calls"

definition main :: "world \<Rightarrow> filesystem \<Rightarrow> exn + ((string \<times> (exn + report)) list \<times> filesystem)" where
  \<comment> \<open>lines 145 to 170; \<open>Inl\<close> is an exception that leaves \<open>main\<close>\<close>
  "main w fs =
     (case (if check_file_exists fs local_html_file = False then
              (case get_url_content w url_to_fetch of
                 Inl e \<Rightarrow> Inl e
               | Inr None \<Rightarrow> Inr fs
               | Inr (Some webpage_content) \<Rightarrow>
                   append_write_to_file w fs local_html_file webpage_content)
            else Inr fs) of
        Inl e \<Rightarrow> Inl e
      | Inr fs1 \<Rightarrow>
          if check_file_exists fs1 local_html_file then
            (case read_a_file w fs1 local_html_file of
               Inl e \<Rightarrow> Inl e
             | Inr html_file_content \<Rightarrow>
                 (case download_loop w download_dir_PDFs (parse_html w html_file_content) fs1 of
                    (calls, fs2) \<Rightarrow>
                      (case raised calls of
                         Some e \<Rightarrow> Inl e
                       | None \<Rightarrow> Inr (calls, fs2))))
          else Inr ([], fs1))"

section \<open>Concrete inputs\<close>

text \<open>A small world to run the program in: one page with two links, a server that
  answers with a PDF, with HTML, with status 304 and with status 404, a body that
  breaks off, a host that cannot be reached, and a console that prints every line.\<close>

definition example_page :: string where
  "example_page = ''<a href='' @ [CHR 0x22] @ ''/docs/Report%2C1.pdf'' @ [CHR 0x22] @ ''>x</a>''
     @ ''<a href='' @ [CHR 0x22] @ ''/img.png'' @ [CHR 0x22] @ ''>y</a>''"

definition example_response :: "nat \<Rightarrow> string \<Rightarrow> response" where
  "example_response status content_type =
     \<lparr>status_code = status, headers = [''content-type'' \<mapsto> content_type],
      body_text = [], iter_content = [''%PDF'', [], ''-1.4''], stream_error = None\<rparr>"

definition example_get :: "string \<Rightarrow> bool \<Rightarrow> exn + response" where
  "example_get url stream =
     (if url = ''https://mydentitycolor.com/sds/''
        then Inr ((example_response 200 ''text/html; charset=utf-8'')\<lparr>body_text := example_page\<rparr>)
      else if url = ''https://mydentitycolor.com/docs/Report%2C1.pdf''
        then Inr (example_response 200 ''Application/PDF'')
      else if url = ''https://mydentitycolor.com/b.pdf''
        then Inr (example_response 200 ''text/html'')
      else if url = ''https://mydentitycolor.com/c.pdf''
        then Inr (example_response 304 ''text/html'')
      else if url = ''https://mydentitycolor.com/d.pdf''
        then Inr (example_response 404 ''text/html'')
      else if url = ''https://mydentitycolor.com/e.pdf''
        then Inl (Exception ''UnicodeError'')
      else if url = ''https://mydentitycolor.com/g.pdf''
        then Inr ((example_response 200 ''application/pdf'')
                    \<lparr>stream_error := Some (RequestException ''ChunkedEncodingError'')\<rparr>)
      else Inl (RequestException ''ConnectionError''))"

definition example_world :: world where
  "example_world =
     \<lparr>requests_get = example_get,
      os_error = (\<lambda>path. None),
      validators_url = (\<lambda>s. startswith s ''https://'' \<or> startswith s ''http://''),
      find_all_a_href = (\<lambda>html. if html = example_page
                                   then [''/docs/Report%2C1.pdf'', ''/img.png''] else []),
      bracketed_netloc_ok = (\<lambda>netloc. True),
      print_error = (\<lambda>line. None)\<rparr>"

text \<open>The same world with a console that encodes ASCII only: the five status lines of
  \<open>download_pdf\<close> begin with a symbol outside ASCII, and \<open>print\<close> raises on each.\<close>

definition ascii_console_world :: world where
  "ascii_console_world = example_world
     \<lparr>print_error := (\<lambda>line. case line of
                         PageFetchFailed e \<Rightarrow> None
                       | _ \<Rightarrow> Some (ValueError ''UnicodeEncodeError''))\<rparr>"

definition empty_filesystem :: filesystem where
  "empty_filesystem = \<lparr>files = Map.empty, dirs = {}\<rparr>"

definition example_disposition :: string where
  \<comment> \<open>the header value of the specification's example, with both parameters\<close>
  "example_disposition = ''attachment; filename*=UTF-8'' @ [CHR 0x27, CHR 0x27] @ ''relatorio.pdf; filename=''
     @ [CHR 0x22] @ ''other.pdf'' @ [CHR 0x22]"

definition report_disposition :: string where
  \<comment> \<open>the filename of the specification's sanitization example, in a simple parameter\<close>
  "report_disposition = ''attachment; filename='' @ [CHR 0x22] @ ''My Report (Final).PDF'' @ [CHR 0x22]"

definition underscore_disposition :: string where
  "underscore_disposition = ''attachment; filename='' @ [CHR 0x22] @ ''___'' @ [CHR 0x22]"

text \<open>A file system in which the file of the example download is already there.\<close>

definition downloaded_filesystem :: filesystem where
  "downloaded_filesystem = \<lparr>files = [''PDFs/report_2c1.pdf'' \<mapsto> ''%PDF-1.3''], dirs = {''PDFs''}\<rparr>"

section \<open>Properties of the string operations\<close>

lemma of_char_inj: "(of_char c :: nat) = of_char d \<longleftrightarrow> c = d" by simp

lemma of_char_lower: "(of_char (lower_char c) :: nat) = (let n = of_char c in
     if (65 \<le> n \<and> n \<le> 90) \<or> (192 \<le> n \<and> n \<le> 222 \<and> n \<noteq> 215)
     then n + 32 else n)"
  by (auto simp add: lower_char_def Let_def)

lemma lower_char_idem: "lower_char (lower_char c) = lower_char c"
  unfolding of_char_inj[symmetric] by (simp add: of_char_lower Let_def)

lemma lower_char_eq_dot: "lower_char c = CHR ''.'' \<longleftrightarrow> c = CHR ''.''"
  unfolding of_char_inj[symmetric, of "lower_char c"] of_char_inj[symmetric, of c]
  by (auto simp add: of_char_lower Let_def)

lemma lower_char_eq_slash: "lower_char c = CHR ''/'' \<longleftrightarrow> c = CHR ''/''"
  unfolding of_char_inj[symmetric, of "lower_char c"] of_char_inj[symmetric, of c]
  by (auto simp add: of_char_lower Let_def)

lemma lower_char_az09: "is_az09 c \<Longrightarrow> lower_char c = c"
  by (auto simp add: is_az09_def lower_char_def Let_def)

lemma lower_char_us: "lower_char CHR ''_'' = CHR ''_''"
  by (simp add: lower_char_def)

lemma is_az09_not_special: "is_az09 c \<Longrightarrow> c \<noteq> CHR ''_'' \<and> c \<noteq> CHR ''.'' \<and> c \<noteq> CHR ''/''"
  by (auto simp add: is_az09_def)

lemma rfind_ge: "- 1 \<le> rfind s c"
  by (induction s) (auto simp: Let_def)

lemma rfind_notin: "c \<notin> set s \<Longrightarrow> rfind s c = - 1"
  by (induction s) (auto simp: Let_def)

lemma rfind_in: "c \<in> set s \<Longrightarrow> 0 \<le> rfind s c"
  by (induction s) (auto simp: Let_def)

lemma rfind_append: "c \<notin> set ys \<Longrightarrow> rfind (xs @ c # ys) c = int (length xs)"
  by (induction xs) (auto simp: Let_def rfind_notin)

lemma rfind_split: "0 \<le> rfind s c \<Longrightarrow> \<exists>xs ys. s = xs @ c # ys \<and> c \<notin> set ys \<and> rfind s c = int (length xs)"
proof (induction s)
  case Nil then show ?case by simp
next
  case (Cons x s)
  show ?case
  proof (cases "0 \<le> rfind s c")
    case True
    with Cons.IH obtain xs ys where "s = xs @ c # ys" "c \<notin> set ys" "rfind s c = int (length xs)" by blast
    then show ?thesis using True
      by (intro exI[of _ "x # xs"] exI[of _ ys]) (simp add: Let_def)
  next
    case False
    with Cons.prems have "x = c" by (simp add: Let_def split: if_splits)
    moreover have "c \<notin> set s" using False rfind_in by blast
    ultimately show ?thesis using False
      by (intro exI[of _ "[]"] exI[of _ s]) (simp add: Let_def)
  qed
qed


lemma slice_one: "0 \<le> i \<Longrightarrow> slice p i (i + 1) = ''.'' \<longleftrightarrow> (nat i < length p \<and> p ! nat i = CHR ''.'')"
proof (cases "nat i < length p")
  case True
  then have "drop (nat i) p = p ! nat i # drop (Suc (nat i)) p" by (simp add: Cons_nth_drop_Suc)
  then show ?thesis using True by (simp add: slice_def)
next
  case False
  then show ?thesis by (simp add: slice_def)
qed

lemma skip_found:
  "0 \<le> i \<Longrightarrow> i \<le> k \<Longrightarrow> k < d \<Longrightarrow> \<not> (nat k < length p \<and> p ! nat k = CHR ''.'')
   \<Longrightarrow> skip_leading_dots p i d = (take (nat d) p, drop (nat d) p)"
proof (induction p i d rule: skip_leading_dots.induct)
  case (1 p i d)
  show ?case
  proof (cases "slice p i (i + 1) = ''.''")
    case True
    with 1 have "i \<noteq> k" using slice_one[of i p] by auto
    with 1 True show ?thesis
      by (subst skip_leading_dots.simps) (simp)
  next
    case False
    with 1 show ?thesis
      by (subst skip_leading_dots.simps) (simp add: slice_def)
  qed
qed

lemma skip_none:
  "0 \<le> i \<Longrightarrow> (\<forall>k. i \<le> k \<and> k < d \<longrightarrow> nat k < length p \<and> p ! nat k = CHR ''.'')
   \<Longrightarrow> skip_leading_dots p i d = (p, [])"
proof (induction p i d rule: skip_leading_dots.induct)
  case (1 p i d)
  show ?case
  proof (cases "i < d")
    case True
    with 1 have "slice p i (i + 1) = ''.''" using slice_one[of i p] by auto
    with 1 True show ?thesis
      by (subst skip_leading_dots.simps) (simp)
  next
    case False
    then show ?thesis by (subst skip_leading_dots.simps) simp
  qed
qed

lemma skip_cases:
  "0 \<le> i \<Longrightarrow> skip_leading_dots p i d = (p, []) \<or> skip_leading_dots p i d = (take (nat d) p, drop (nat d) p)"
  using skip_found[of i _ d p] skip_none[of i d p] by blast

lemma splitext_no_dot: "CHR ''.'' \<notin> set s \<Longrightarrow> splitext s = (s, [])"
  using rfind_ge[of s "CHR ''/''"] by (simp add: splitext_def rfind_notin Let_def)

lemma splitext_leading_dot:
  assumes "CHR ''.'' \<notin> set r" shows "splitext (CHR ''.'' # r) = (CHR ''.'' # r, [])"
proof -
  have d: "rfind (CHR ''.'' # r) CHR ''.'' = 0" using rfind_append[of "CHR ''.''" r "[]"] assms by simp
  have "skip_leading_dots (CHR ''.'' # r) (rfind (CHR ''.'' # r) CHR ''/'' + 1) 0 = (CHR ''.'' # r, [])"
    using rfind_ge[of "CHR ''.'' # r" "CHR ''/''"] by (intro skip_none) auto
  then show ?thesis unfolding splitext_def Let_def d by simp
qed

lemma splitext_stem_dot:
  assumes "s \<noteq> []" "CHR ''.'' \<notin> set s" "CHR ''/'' \<notin> set s" "CHR ''.'' \<notin> set r" "CHR ''/'' \<notin> set r"
  shows "splitext (s @ CHR ''.'' # r) = (s, CHR ''.'' # r)"
proof -
  let ?p = "s @ CHR ''.'' # r"
  have d: "rfind ?p CHR ''.'' = int (length s)" using assms by (simp add: rfind_append)
  have sl: "rfind ?p CHR ''/'' = - 1" using assms by (intro rfind_notin) auto
  have "\<not> (nat 0 < length ?p \<and> ?p ! nat 0 = CHR ''.'')" using assms by (cases s) auto
  then have "skip_leading_dots ?p 0 (int (length s)) = (take (nat (int (length s))) ?p, drop (nat (int (length s))) ?p)"
    using assms by (intro skip_found[where k = 0]) auto
  then show ?thesis unfolding splitext_def Let_def d sl by simp
qed

lemma splitext_shape:
  "splitext p = (n, e) \<Longrightarrow> n @ e = p \<and> (e = [] \<or> (\<exists>r. e = CHR ''.'' # r \<and> CHR ''.'' \<notin> set r \<and> CHR ''/'' \<notin> set r))"
proof -
  assume a: "splitext p = (n, e)"
  show ?thesis
  proof (cases "rfind p CHR ''.'' > rfind p CHR ''/''")
    case False
    with a show ?thesis by (simp add: splitext_def Let_def)
  next
    case True
    have ge: "0 \<le> rfind p CHR ''.''" using True rfind_ge[of p "CHR ''/''"] by linarith
    from rfind_split[OF ge] obtain xs ys where p: "p = xs @ CHR ''.'' # ys" "CHR ''.'' \<notin> set ys"
      "rfind p CHR ''.'' = int (length xs)" by blast
    have noslash: "CHR ''/'' \<notin> set ys"
    proof
      assume "CHR ''/'' \<in> set ys"
      then obtain a b where "ys = a @ CHR ''/'' # b" by (meson split_list)
      then have q: "p = (xs @ CHR ''.'' # a) @ CHR ''/'' # b" using p by simp
      have "CHR ''/'' \<in> set b \<or> CHR ''/'' \<notin> set b" by simp
      have "int (length xs) < rfind p CHR ''/''"
      proof (cases "CHR ''/'' \<in> set b")
        case False
        then show ?thesis using rfind_append[of "CHR ''/''" b "xs @ CHR ''.'' # a"] q by simp
      next
        case True
        then obtain b1 b2 where "b = b1 @ CHR ''/'' # b2" "CHR ''/'' \<notin> set b2" by (meson split_list_last)
        then have "p = (xs @ CHR ''.'' # a @ CHR ''/'' # b1) @ CHR ''/'' # b2" using q by simp
        then show ?thesis using rfind_append[of "CHR ''/''" b2 "xs @ CHR ''.'' # a @ CHR ''/'' # b1"] \<open>CHR ''/'' \<notin> set b2\<close> by simp
      qed
      then show False using True p by simp
    qed
    have "0 \<le> rfind p CHR ''/'' + 1" using rfind_ge[of p "CHR ''/''"] by linarith
    from skip_cases[OF this, of p "rfind p CHR ''.''"] a True
    have "(n, e) = (p, []) \<or> (n, e) = (take (length xs) p, drop (length xs) p)"
      by (simp add: splitext_def Let_def p(3))
    then show ?thesis using p noslash by auto
  qed
qed


lemma str_in_iff: "str_in sub s \<longleftrightarrow> (\<exists>xs ys. s = xs @ sub @ ys)"
proof (induction s)
  case Nil
  then show ?case by simp
next
  case (Cons c cs)
  have "startswith (c # cs) sub \<longleftrightarrow> (\<exists>ys. c # cs = sub @ ys)"
    unfolding startswith_def by (metis append_eq_conv_conj append_take_drop_id)
  moreover have "(\<exists>xs ys. c # cs = xs @ sub @ ys) \<longleftrightarrow> (\<exists>ys. c # cs = sub @ ys) \<or> (\<exists>xs ys. cs = xs @ sub @ ys)"
  proof
    assume "\<exists>xs ys. c # cs = xs @ sub @ ys"
    then obtain xs ys where e: "c # cs = xs @ sub @ ys" by blast
    show "(\<exists>ys. c # cs = sub @ ys) \<or> (\<exists>xs ys. cs = xs @ sub @ ys)"
    proof (cases xs)
      case Nil
      with e show ?thesis by auto
    next
      case (Cons x xs')
      with e have "cs = xs' @ sub @ ys" by simp
      then show ?thesis by blast
    qed
  next
    assume "(\<exists>ys. c # cs = sub @ ys) \<or> (\<exists>xs ys. cs = xs @ sub @ ys)"
    then show "\<exists>xs ys. c # cs = xs @ sub @ ys"
    proof
      assume "\<exists>ys. c # cs = sub @ ys"
      then show ?thesis by (metis append_Nil)
    next
      assume "\<exists>xs ys. cs = xs @ sub @ ys"
      then obtain xs ys where "cs = xs @ sub @ ys" by blast
      then have "c # cs = (c # xs) @ sub @ ys" by simp
      then show ?thesis by blast
    qed
  qed
  ultimately show ?case using Cons.IH by simp
qed

lemma str_in_part: "str_in sub t \<Longrightarrow> str_in sub (a @ t @ b)"
proof -
  assume "str_in sub t"
  then obtain xs ys where "t = xs @ sub @ ys" unfolding str_in_iff by blast
  then have "a @ t @ b = (a @ xs) @ sub @ (ys @ b)" by simp
  then show ?thesis unfolding str_in_iff by blast
qed

lemma strip_part: "\<exists>a b. s = a @ strip s c @ b"
proof -
  let ?P = "\<lambda>x. x = c"
  let ?d = "dropWhile ?P s"
  have 1: "s = takeWhile ?P s @ ?d" by simp
  have "rev ?d = takeWhile ?P (rev ?d) @ dropWhile ?P (rev ?d)" by simp
  then have "?d = rev (dropWhile ?P (rev ?d)) @ rev (takeWhile ?P (rev ?d))"
    by (metis rev_append rev_rev_ident)
  then have "s = takeWhile ?P s @ strip s c @ rev (takeWhile ?P (rev ?d))"
    using 1 unfolding strip_def by metis
  then show ?thesis by blast
qed

lemma set_strip: "set (strip s c) \<subseteq> set s"
  using strip_part[of s c] by (metis Un_upper1 Un_upper2 set_append subset_trans)

lemma startswith_single: "startswith t [c] \<longleftrightarrow> (t \<noteq> [] \<and> hd t = c)"
  by (cases t) (auto simp: startswith_def)

lemma endswith_single: "endswith t [c] \<longleftrightarrow> (t \<noteq> [] \<and> last t = c)"
  by (cases t rule: rev_cases) (auto simp: endswith_def)

lemma strip_no_edge: "\<not> startswith (strip s c) [c] \<and> \<not> endswith (strip s c) [c]"
proof -
  define P where "P = (\<lambda>x. x = c)"
  define d where "d = dropWhile P s"
  define e where "e = dropWhile P (rev d)"
  have e: "e = [] \<or> hd e \<noteq> c" using hd_dropWhile[of P "rev d"] unfolding e_def P_def by blast
  have d: "d = [] \<or> hd d \<noteq> c" using hd_dropWhile[of P s] unfolding d_def P_def by blast
  have st: "strip s c = rev e" by (simp add: strip_def e_def d_def P_def)
  have last: "rev e = [] \<or> last (rev e) \<noteq> c" using e by (cases e) auto
  have "rev d = takeWhile P (rev d) @ e" unfolding e_def by simp
  then have dd: "d = rev e @ rev (takeWhile P (rev d))" by (metis rev_append rev_rev_ident)
  have "rev e = [] \<or> hd (rev e) \<noteq> c"
  proof (cases "rev e = []")
    case True then show ?thesis by blast
  next
    case False
    then have "hd d = hd (rev e)" using dd by (metis hd_append2)
    moreover have "d \<noteq> []" using dd False by auto
    ultimately show ?thesis using d by auto
  qed
  then show ?thesis using last unfolding st startswith_single endswith_single by blast
qed

lemma strip_id: "\<not> startswith s [c] \<Longrightarrow> \<not> endswith s [c] \<Longrightarrow> strip s c = s"
proof -
  assume a: "\<not> startswith s [c]" and b: "\<not> endswith s [c]"
  have 1: "dropWhile (\<lambda>x. x = c) s = s" using a by (cases s) (auto simp: startswith_def)
  have 2: "dropWhile (\<lambda>x. x = c) (rev s) = rev s"
    using b by (cases s rule: rev_cases) (auto simp: endswith_def)
  show ?thesis by (simp add: strip_def 1 2)
qed

lemma sub_underscores_hd: "sub_underscores (y # ys) = y # tl (sub_underscores (y # ys))"
  by simp

lemma dbl_Cons: "str_in ''__'' (a # b # cs) \<longleftrightarrow> (a = CHR ''_'' \<and> b = CHR ''_'') \<or> str_in ''__'' (b # cs)"
  by (auto simp: startswith_def)

lemma dbl_single: "\<not> str_in ''__'' [a]" "\<not> str_in ''__'' []"
  by (auto simp: startswith_def)

lemma sub_underscores_no_dbl: "\<not> str_in ''__'' (sub_underscores s)"
proof (induction s rule: sub_underscores.induct)
  case 1
  then show ?case by simp
next
  case (2 c cs)
  show ?case
  proof (cases "c = CHR ''_''")
    case True
    define d where "d = dropWhile (\<lambda>x. x = CHR ''_'') cs"
    have ih: "\<not> str_in ''__'' (sub_underscores d)" using 2(1) True unfolding d_def by blast
    have eq: "sub_underscores (c # cs) = CHR ''_'' # sub_underscores d" using True by (simp add: d_def)
    show ?thesis
    proof (cases d)
      case Nil
      then show ?thesis unfolding eq by (simp add: startswith_def)
    next
      case (Cons y ys)
      then have "y \<noteq> CHR ''_''" using hd_dropWhile[of "\<lambda>x. x = CHR ''_''" cs] unfolding d_def by auto
      moreover have "sub_underscores d = y # tl (sub_underscores d)" using Cons by simp
      ultimately show ?thesis using ih unfolding eq by (metis dbl_Cons)
    qed
  next
    case False
    then show ?thesis using 2(2)
      by (cases "sub_underscores cs") (auto simp: startswith_def)
  qed
qed

lemma sub_underscores_set: "set (sub_underscores s) \<subseteq> set s"
proof (induction s rule: sub_underscores.induct)
  case 1 then show ?case by simp
next
  case (2 c cs)
  then show ?case using set_dropWhileD[of _ "\<lambda>x. x = CHR ''_''" cs] by auto
qed

lemma sub_underscores_id: "\<not> str_in ''__'' s \<Longrightarrow> sub_underscores s = s"
proof (induction s rule: sub_underscores.induct)
  case 1 then show ?case by simp
next
  case (2 c cs)
  show ?case
  proof (cases cs)
    case Nil then show ?thesis by simp
  next
    case (Cons b bs)
    with "2.prems" have nd: "\<not> (c = CHR ''_'' \<and> b = CHR ''_'')" and r: "\<not> str_in ''__'' cs"
      by (auto simp: startswith_def)
    show ?thesis
    proof (cases "c = CHR ''_''")
      case True
      with nd Cons have "dropWhile (\<lambda>x. x = CHR ''_'') cs = cs" by simp
      then show ?thesis using True 2(1) r by simp
    next
      case False
      then show ?thesis using 2(2) r by simp
    qed
  qed
qed

lemma sub_non_alnum_set: "c \<in> set (sub_non_alnum s) \<Longrightarrow> is_az09 c \<or> c = CHR ''_''"
  by (auto simp: sub_non_alnum_def)

lemma clean_stem_chars: "c \<in> set (clean_stem s) \<Longrightarrow> is_az09 c \<or> c = CHR ''_''"
  unfolding clean_stem_def using set_strip sub_underscores_set sub_non_alnum_set by blast

lemma clean_stem_ok: "stem_ok (clean_stem s)"
proof -
  have "\<not> str_in ''__'' (clean_stem s)"
  proof
    assume a: "str_in ''__'' (clean_stem s)"
    obtain x y where "sub_underscores (sub_non_alnum (lower s)) = x @ clean_stem s @ y"
      unfolding clean_stem_def using strip_part by blast
    then show False using str_in_part[OF a, of x y] sub_underscores_no_dbl by metis
  qed
  moreover have "\<not> startswith (clean_stem s) ''_'' \<and> \<not> endswith (clean_stem s) ''_''"
    unfolding clean_stem_def by (rule strip_no_edge)
  ultimately show ?thesis
    unfolding stem_ok_def using clean_stem_chars by (auto simp: list_all_iff)
qed

lemma clean_stem_id: "stem_ok s \<Longrightarrow> clean_stem s = s"
proof -
  assume a: "stem_ok s"
  then have ch: "\<forall>c \<in> set s. is_az09 c \<or> c = CHR ''_''" by (simp add: stem_ok_def list_all_iff)
  have 1: "lower s = s" unfolding lower_def using ch
    by (intro map_idI) (auto simp: lower_char_az09 lower_char_us)
  have 2: "sub_non_alnum s = s" unfolding sub_non_alnum_def using ch
    by (intro map_idI) auto
  have 3: "sub_underscores s = s" using a by (simp add: stem_ok_def sub_underscores_id)
  have 4: "strip s CHR ''_'' = s" using a by (simp add: stem_ok_def strip_id)
  show ?thesis by (simp add: clean_stem_def 1 2 3 4)
qed

lemma clean_stem_no_dot: "CHR ''.'' \<notin> set (clean_stem s)" "CHR ''/'' \<notin> set (clean_stem s)"
  using clean_stem_chars[of "CHR ''.''" s] clean_stem_chars[of "CHR ''/''" s]
  by (auto simp: is_az09_def)


lemma strip_Nil_iff: "strip s c = [] \<longleftrightarrow> (\<forall>x \<in> set s. x = c)"
proof -
  have "strip s c = [] \<longleftrightarrow> dropWhile (\<lambda>x. x = c) (rev (dropWhile (\<lambda>x. x = c) s)) = []"
    by (simp add: strip_def)
  also have "\<dots> \<longleftrightarrow> (\<forall>x \<in> set (dropWhile (\<lambda>x. x = c) s). x = c)"
    by (simp add: dropWhile_eq_Nil_conv)
  also have "\<dots> \<longleftrightarrow> (\<forall>x \<in> set s. x = c)"
  proof
    assume a: "\<forall>x \<in> set (dropWhile (\<lambda>x. x = c) s). x = c"
    have "dropWhile (\<lambda>x. x = c) s = []"
    proof (rule ccontr)
      assume n: "dropWhile (\<lambda>x. x = c) s \<noteq> []"
      then have "hd (dropWhile (\<lambda>x. x = c) s) \<noteq> c" using hd_dropWhile[of "\<lambda>x. x = c" s] by blast
      moreover have "hd (dropWhile (\<lambda>x. x = c) s) \<in> set (dropWhile (\<lambda>x. x = c) s)" using n by simp
      ultimately show False using a by blast
    qed
    then show "\<forall>x \<in> set s. x = c" by (simp add: dropWhile_eq_Nil_conv)
  next
    assume "\<forall>x \<in> set s. x = c"
    then show "\<forall>x \<in> set (dropWhile (\<lambda>x. x = c) s). x = c" using set_dropWhileD by fastforce
  qed
  finally show ?thesis .
qed

lemma sub_underscores_keeps: "c \<in> set s \<Longrightarrow> c \<in> set (sub_underscores s)"
proof (induction s rule: sub_underscores.induct)
  case 1 then show ?case by simp
next
  case (2 x xs)
  show ?case
  proof (cases "x = CHR ''_''")
    case True
    show ?thesis
    proof (cases "c = CHR ''_''")
      case True
      then show ?thesis using \<open>x = CHR ''_''\<close> by simp
    next
      case False
      then have "c \<in> set xs" using "2.prems" True by auto
      then have "c \<in> set (dropWhile (\<lambda>x. x = CHR ''_'') xs)" using False
        by (induction xs) auto
      then show ?thesis using 2(1) True by simp
    qed
  next
    case False
    then show ?thesis using 2 by auto
  qed
qed

lemma clean_stem_empty: "clean_stem s = [] \<longleftrightarrow> \<not> list_ex is_az09 (lower s)"
proof
  assume e: "clean_stem s = []"
  show "\<not> list_ex is_az09 (lower s)"
  proof
    assume "list_ex is_az09 (lower s)"
    then obtain c where c: "c \<in> set (lower s)" "is_az09 c" by (auto simp: list_ex_iff)
    then have "c \<in> set (sub_non_alnum (lower s))" by (force simp: sub_non_alnum_def)
    then have "c \<in> set (sub_underscores (sub_non_alnum (lower s)))" by (rule sub_underscores_keeps)
    moreover have "\<forall>x \<in> set (sub_underscores (sub_non_alnum (lower s))). x = CHR ''_''"
      using e unfolding clean_stem_def strip_Nil_iff .
    ultimately show False using c(2) is_az09_not_special by blast
  qed
next
  assume n: "\<not> list_ex is_az09 (lower s)"
  have "\<forall>x \<in> set (sub_non_alnum (lower s)). x = CHR ''_''"
    using n by (auto simp: sub_non_alnum_def list_ex_iff)
  then have "\<forall>x \<in> set (sub_underscores (sub_non_alnum (lower s))). x = CHR ''_''"
    using sub_underscores_set by blast
  then show "clean_stem s = []" unfolding clean_stem_def strip_Nil_iff .
qed

lemma lower_idem: "lower (lower s) = lower s"
  by (simp add: lower_def lower_char_idem)

lemma lower_no_dot: "CHR ''.'' \<notin> set r \<Longrightarrow> CHR ''.'' \<notin> set (lower r)"
proof
  assume a: "CHR ''.'' \<notin> set r" and "CHR ''.'' \<in> set (lower r)"
  then obtain x where "x \<in> set r" "lower_char x = CHR ''.''" unfolding lower_def by auto
  then show False using a by (simp add: lower_char_eq_dot)
qed

lemma lower_no_slash: "CHR ''/'' \<notin> set r \<Longrightarrow> CHR ''/'' \<notin> set (lower r)"
proof
  assume a: "CHR ''/'' \<notin> set r" and "CHR ''/'' \<in> set (lower r)"
  then obtain x where "x \<in> set r" "lower_char x = CHR ''/''" unfolding lower_def by auto
  then show False using a by (simp add: lower_char_eq_slash)
qed

lemma lower_dot: "lower (CHR ''.'' # r) = CHR ''.'' # lower r"
  by (simp add: lower_def lower_char_def)

lemma sanitize_parts:
  obtains n e where "splitext f = (n, e)" "sanitize f = clean_stem n @ lower e"
    "e = [] \<or> (\<exists>r. e = CHR ''.'' # r \<and> CHR ''.'' \<notin> set r \<and> CHR ''/'' \<notin> set r)"
proof -
  obtain n e where ne: "splitext f = (n, e)" by (cases "splitext f")
  then have "sanitize f = clean_stem n @ lower e" by (simp add: sanitize_def)
  then show ?thesis using that ne splitext_shape[OF ne] by blast
qed

lemma stem_of_sanitize: "stem_of (sanitize f) = clean_stem (fst (splitext f))"
  and extension_of_sanitize: "extension_of (sanitize f) = lower (snd (splitext f))"
proof -
  obtain n e where p: "splitext f = (n, e)" "sanitize f = clean_stem n @ lower e"
    "e = [] \<or> (\<exists>r. e = CHR ''.'' # r \<and> CHR ''.'' \<notin> set r \<and> CHR ''/'' \<notin> set r)"
    by (rule sanitize_parts)
  have "stem_of (sanitize f) = clean_stem n \<and> extension_of (sanitize f) = lower e"
  proof (cases "e = []")
    case True
    then have "sanitize f = clean_stem n" using p by (simp add: lower_def)
    then show ?thesis using True clean_stem_no_dot(1)[of n]
      by (simp add: stem_of_def extension_of_def rfind_notin lower_def)
  next
    case False
    then obtain r where r: "e = CHR ''.'' # r" "CHR ''.'' \<notin> set r" using p by blast
    then have s: "sanitize f = clean_stem n @ CHR ''.'' # lower r" using p by (simp add: lower_dot)
    have "rfind (sanitize f) CHR ''.'' = int (length (clean_stem n))"
      unfolding s using r lower_no_dot by (intro rfind_append) auto
    then show ?thesis using s r by (simp add: stem_of_def extension_of_def lower_dot)
  qed
  then show "stem_of (sanitize f) = clean_stem (fst (splitext f))"
    and "extension_of (sanitize f) = lower (snd (splitext f))" using p by auto
qed

lemma sanitize_empty_iff:
  "sanitize f = [] \<longleftrightarrow> snd (splitext f) = [] \<and> \<not> list_ex is_az09 (lower (fst (splitext f)))"
  by (cases "splitext f") (auto simp: sanitize_def clean_stem_empty lower_def)

lemma sanitize_idem_iff: "sanitize (sanitize f) = sanitize f \<longleftrightarrow> \<not> startswith (sanitize f) ''.''"
proof -
  obtain n e where p: "splitext f = (n, e)" "sanitize f = clean_stem n @ lower e"
    "e = [] \<or> (\<exists>r. e = CHR ''.'' # r \<and> CHR ''.'' \<notin> set r \<and> CHR ''/'' \<notin> set r)"
    by (rule sanitize_parts)
  show ?thesis
  proof (cases "e = []")
    case True
    then have s: "sanitize f = clean_stem n" using p by (simp add: lower_def)
    have "splitext (clean_stem n) = (clean_stem n, [])" using clean_stem_no_dot by (intro splitext_no_dot)
    then have "sanitize (clean_stem n) = clean_stem n"
      by (simp add: sanitize_def lower_def clean_stem_id clean_stem_ok)
    moreover have "\<not> startswith (clean_stem n) ''.''"
      using clean_stem_no_dot(1)[of n] unfolding startswith_single by (cases "clean_stem n") auto
    ultimately show ?thesis using s by simp
  next
    case False
    then obtain r where r: "e = CHR ''.'' # r" "CHR ''.'' \<notin> set r" "CHR ''/'' \<notin> set r" using p by blast
    then have s: "sanitize f = clean_stem n @ CHR ''.'' # lower r" using p by (simp add: lower_dot)
    show ?thesis
    proof (cases "clean_stem n = []")
      case True
      then have s': "sanitize f = CHR ''.'' # lower r" using s by simp
      have "splitext (CHR ''.'' # lower r) = (CHR ''.'' # lower r, [])"
        using r lower_no_dot by (intro splitext_leading_dot) auto
      then have "sanitize (sanitize f) = clean_stem (CHR ''.'' # lower r)"
        unfolding s' by (simp add: sanitize_def lower_def)
      then have "CHR ''.'' \<notin> set (sanitize (sanitize f))" using clean_stem_no_dot by simp
      then have "sanitize (sanitize f) \<noteq> sanitize f" unfolding s' by (metis list.set_intros(1))
      moreover have "startswith (sanitize f) ''.''" unfolding s' by (simp add: startswith_def)
      ultimately show ?thesis by simp
    next
      case False
      have "splitext (clean_stem n @ CHR ''.'' # lower r) = (clean_stem n, CHR ''.'' # lower r)"
        using False clean_stem_no_dot r lower_no_dot lower_no_slash by (intro splitext_stem_dot) auto
      then have "sanitize (sanitize f) = clean_stem (clean_stem n) @ lower (CHR ''.'' # lower r)"
        unfolding s by (simp add: sanitize_def)
      then have "sanitize (sanitize f) = sanitize f"
        unfolding s by (simp add: clean_stem_id clean_stem_ok lower_dot lower_idem)
      moreover have "\<not> startswith (sanitize f) ''.''"
        unfolding s startswith_single using False clean_stem_no_dot(1)[of n]
        by (cases "clean_stem n") auto
      ultimately show ?thesis by simp
    qed
  qed
qed

section \<open>Properties of the downloader and the driver\<close>

lemma sanitize_has_alnum: "c \<in> set f \<Longrightarrow> is_az09 c \<Longrightarrow> sanitize f \<noteq> []"
proof
  assume c: "c \<in> set f" "is_az09 c" and e: "sanitize f = []"
  obtain n x where p: "splitext f = (n, x)" by (cases "splitext f")
  from e have "x = []" "\<not> list_ex is_az09 (lower n)" using p by (simp_all add: sanitize_empty_iff)
  moreover have "n @ x = f" using splitext_shape[OF p] by simp
  ultimately have "\<not> list_ex is_az09 (lower f)" by simp
  moreover have "lower_char c \<in> set (lower f)" using c by (simp add: lower_def)
  ultimately show False using c(2) by (simp add: list_ex_iff lower_char_az09)
qed

lemma endswith_append: "endswith (a @ p) p"
  by (simp add: endswith_def)

lemma endswith_set: "endswith f p \<Longrightarrow> set p \<subseteq> set f"
  unfolding endswith_def by (metis set_drop_subset)

lemma fallback_ends_pdf: "fallback_filename w url = Inr f \<Longrightarrow> endswith f ''.pdf''"
  by (auto simp: fallback_filename_def Let_def endswith_append split: sum.splits if_splits)

lemma fallback_nonempty: "fallback_filename w url = Inr f \<Longrightarrow> sanitize f \<noteq> []"
proof -
  assume "fallback_filename w url = Inr f"
  then have "set ''.pdf'' \<subseteq> set f" using fallback_ends_pdf endswith_set by blast
  then have "CHR ''p'' \<in> set f" by simp
  moreover have "is_az09 CHR ''p''" by (simp add: is_az09_def)
  ultimately show ?thesis by (rule sanitize_has_alnum)
qed

lemma parse_html_loop_filter:
  "parse_html_loop hrefs acc = acc @ filter (\<lambda>href. endswith (lower (unquote href)) ''.pdf'') hrefs"
  by (induction hrefs arbitrary: acc) (simp_all add: Let_def)

lemma write_chunks_other: "p \<noteq> q \<Longrightarrow> files (write_chunks fs q cs) p = files fs p"
  by (induction cs arbitrary: fs) (auto simp: file_write_def)

lemma write_chunks_dirs: "dirs (write_chunks fs q cs) = dirs fs"
  by (induction cs arbitrary: fs) (auto simp: file_write_def)

lemma makedirs_files: "makedirs w fs d = Inr fs1 \<Longrightarrow> files fs1 = files fs"
  by (auto simp: makedirs_def split: option.splits if_splits)



lemma download_pdf_try_keeps:
  assumes "isfile fs p"
  shows "files (snd (download_pdf_try w url d fs)) p = files fs p"
proof (cases "requests_get w url True")
  case (Inl e)
  then show ?thesis by (simp add: download_pdf_try_def)
next
  case (Inr response)
  note resp = this
  show ?thesis
  proof (cases "raise_for_status response")
    case (Inl e)
    then show ?thesis using resp by (simp add: download_pdf_try_def)
  next
    case (Inr u)
    note ok = this
    show ?thesis
    proof (cases "str_in ''application/pdf'' (lower (headers_get (headers response) ''Content-Type'' []))")
      case False
      then show ?thesis using resp ok by (simp add: download_pdf_try_def)
    next
      case True
      note gate = this
      show ?thesis
      proof (cases "resolve_filename w (headers_get (headers response) ''Content-Disposition'' []) url")
        case (Inl e)
        then show ?thesis using resp ok gate by (simp add: download_pdf_try_def)
      next
        case (Inr filename0)
        note res = this
        show ?thesis
        proof (cases "makedirs w fs d")
          case (Inl e)
          then show ?thesis using resp ok gate res by (simp add: download_pdf_try_def)
        next
          case (Inr fs1)
          note mk = this
          have f1: "files fs1 = files fs" using mk by (rule makedirs_files)
          define file_path where "file_path = path_join d (sanitize filename0)"
          show ?thesis
          proof (cases "path_exists fs1 file_path")
            case True
            then show ?thesis using resp ok gate res mk f1
              by (simp add: download_pdf_try_def file_path_def)
          next
            case False
            then have ne: "p \<noteq> file_path" using assms f1 by (auto simp: path_exists_def isfile_def)
            show ?thesis
            proof (cases "open_wb w fs1 file_path")
              case (Inl e)
              then show ?thesis using resp ok gate res mk f1 False
                by (simp add: download_pdf_try_def file_path_def)
            next
              case (Inr fs2)
              then have f2: "files fs2 p = files fs p" using ne f1
                by (auto simp: open_wb_def split: option.splits if_splits)
              have "files (write_chunks fs2 file_path (iter_content response)) p = files fs p"
                using write_chunks_other[OF ne] f2 by simp
              then show ?thesis using resp ok gate res mk False Inr
                by (simp add: download_pdf_try_def file_path_def Let_def split: option.splits)
            qed
          qed
        qed
      qed
    qed
  qed
qed

lemma print_line_Inr: "print_line w line = Inr r \<longleftrightarrow> print_error w line = None \<and> r = line"
  by (auto simp: print_line_def split: option.splits)

lemma print_line_Inl: "print_line w line = Inl e \<longleftrightarrow> print_error w line = Some e"
  by (auto simp: print_line_def split: option.splits)

lemma download_pdf_snd: "snd (download_pdf w url d fs) = snd (download_pdf_try w url d fs)"
  by (cases "download_pdf_try w url d fs") (auto simp: download_pdf_def split: sum.splits)

lemma download_pdf_fst:
  "fst (download_pdf w url d fs) =
     (case fst (download_pdf_try w url d fs) of
        Inr r \<Rightarrow> Inr r
      | Inl e \<Rightarrow> print_line w (if is_request_exception e then FetchFailed e else UnexpectedError e))"
  by (cases "download_pdf_try w url d fs") (auto simp: download_pdf_def split: sum.splits)

lemma download_pdf_keeps:
  "isfile fs p \<Longrightarrow> files (snd (download_pdf w url d fs)) p = files fs p"
  by (simp add: download_pdf_snd download_pdf_try_keeps)

lemma download_pdf_returns:
  assumes "\<forall>line. print_error w line = None"
  shows "fst (download_pdf w url d fs) \<noteq> Inl x"
proof -
  have p: "\<And>line. print_line w line = Inr line" using assms by (simp add: print_line_def)
  show ?thesis unfolding download_pdf_fst
    by (cases "fst (download_pdf_try w url d fs)") (simp_all add: p)
qed

lemma download_pdf_raises:
  assumes "fst (download_pdf w url d fs) = Inl x"
  shows "\<exists>e. fst (download_pdf_try w url d fs) = Inl e
     \<and> print_error w (if is_request_exception e then FetchFailed e else UnexpectedError e) = Some x"
  using assms unfolding download_pdf_fst
  by (cases "fst (download_pdf_try w url d fs)") (auto simp: print_line_Inl)

lemma download_loop_step_returned:
  assumes "\<not> validate_url w u" "download_pdf w (site_origin @ u) d fs = (Inr r, fs')"
  shows "download_loop w d (u # rest) fs =
     ((site_origin @ u, Inr r) # fst (download_loop w d rest fs'), snd (download_loop w d rest fs'))"
  using assms by (cases "download_loop w d rest fs'") (simp add: Let_def)

lemma download_loop_step_raised:
  assumes "\<not> validate_url w u" "download_pdf w (site_origin @ u) d fs = (Inl x, fs')"
  shows "download_loop w d (u # rest) fs = ([(site_origin @ u, Inl x)], fs')"
  using assms by (simp add: Let_def)

lemma download_loop_prefix:
  "map fst (fst (download_loop w d links fs)) =
   take (length (fst (download_loop w d links fs)))
     (map (\<lambda>u. site_origin @ u) (filter (\<lambda>u. \<not> validate_url w u) links))"
proof (induction links arbitrary: fs)
  case Nil
  then show ?case by simp
next
  case (Cons u links)
  show ?case
  proof (cases "validate_url w u")
    case True
    then show ?thesis using Cons.IH by simp
  next
    case False
    obtain x fs' where d: "download_pdf w (site_origin @ u) d fs = (x, fs')"
      by (cases "download_pdf w (site_origin @ u) d fs")
    show ?thesis
    proof (cases x)
      case (Inl e)
      then show ?thesis using False d by (simp add: download_loop_step_raised del: download_loop.simps)
    next
      case (Inr r)
      then show ?thesis using False d Cons.IH[of fs'] by (simp add: download_loop_step_returned del: download_loop.simps)
    qed
  qed
qed

lemma download_loop_all:
  "raised (fst (download_loop w d links fs)) = None \<Longrightarrow>
   map fst (fst (download_loop w d links fs)) =
     map (\<lambda>u. site_origin @ u) (filter (\<lambda>u. \<not> validate_url w u) links)"
proof (induction links arbitrary: fs)
  case Nil
  then show ?case by simp
next
  case (Cons u links)
  show ?case
  proof (cases "validate_url w u")
    case True
    then show ?thesis using Cons by simp
  next
    case False
    obtain x fs' where d: "download_pdf w (site_origin @ u) d fs = (x, fs')"
      by (cases "download_pdf w (site_origin @ u) d fs")
    show ?thesis
    proof (cases x)
      case (Inl e)
      then show ?thesis using False d Cons.prems by (simp add: download_loop_step_raised del: download_loop.simps)
    next
      case (Inr r)
      then have "raised (fst (download_loop w d links fs')) = None"
        using False d Cons.prems by (simp add: download_loop_step_returned del: download_loop.simps)
      then show ?thesis using Inr False d Cons.IH[of fs'] by (simp add: download_loop_step_returned del: download_loop.simps)
    qed
  qed
qed

lemma download_loop_not_raised:
  assumes "\<forall>line. print_error w line = None"
  shows "raised (fst (download_loop w d links fs)) = None"
proof (induction links arbitrary: fs)
  case Nil
  then show ?case by simp
next
  case (Cons u links)
  show ?case
  proof (cases "validate_url w u")
    case True
    then show ?thesis using Cons by simp
  next
    case False
    obtain x fs' where d: "download_pdf w (site_origin @ u) d fs = (x, fs')"
      by (cases "download_pdf w (site_origin @ u) d fs")
    show ?thesis
    proof (cases x)
      case (Inl e)
      then have "fst (download_pdf w (site_origin @ u) d fs) = Inl e" using d by simp
      then show ?thesis using download_pdf_returns[OF assms] by blast
    next
      case (Inr r)
      then show ?thesis using False d Cons.IH[of fs'] by (simp add: download_loop_step_returned del: download_loop.simps)
    qed
  qed
qed

lemma download_loop_keeps:
  "isfile fs p \<Longrightarrow> files (snd (download_loop w d links fs)) p = files fs p"
proof (induction links arbitrary: fs)
  case Nil
  then show ?case by simp
next
  case (Cons u links)
  show ?case
  proof (cases "validate_url w u")
    case True
    then show ?thesis using Cons by simp
  next
    case False
    obtain x fs' where d: "download_pdf w (site_origin @ u) d fs = (x, fs')"
      by (cases "download_pdf w (site_origin @ u) d fs")
    have k: "files fs' p = files fs p"
      using download_pdf_keeps[OF Cons.prems, of w "site_origin @ u" d] d by simp
    show ?thesis
    proof (cases x)
      case (Inl e)
      then show ?thesis using False d k by (simp add: download_loop_step_raised del: download_loop.simps)
    next
      case (Inr r)
      have "isfile fs' p" using k Cons.prems by (simp add: isfile_def)
      then have "files (snd (download_loop w d links fs')) p = files fs' p" by (rule Cons.IH)
      then show ?thesis using Inr False d k by (simp add: download_loop_step_returned del: download_loop.simps)
    qed
  qed
qed

lemma append_write_keeps:
  "append_write_to_file w fs q c = Inr fs' \<Longrightarrow> p \<noteq> q \<Longrightarrow> files fs' p = files fs p"
  by (auto simp: append_write_to_file_def file_write_def split: option.splits if_splits)

lemma main_keeps:
  assumes m: "main w fs = Inr (calls, fs')" and p: "isfile fs p"
  shows "files fs' p = files fs p"
proof -
  define first where "first =
     (if check_file_exists fs local_html_file = False then
              (case get_url_content w url_to_fetch of
                 Inl e \<Rightarrow> Inl e
               | Inr None \<Rightarrow> Inr fs
               | Inr (Some webpage_content) \<Rightarrow>
                   append_write_to_file w fs local_html_file webpage_content)
            else Inr fs)"
  from m obtain fs_page where f: "first = Inr fs_page"
    unfolding main_def first_def[symmetric] by (cases first) auto
  have k: "files fs_page p = files fs p"
  proof (cases "check_file_exists fs local_html_file")
    case True
    then show ?thesis using f by (simp add: first_def)
  next
    case False
    then have "p \<noteq> local_html_file" using p by (auto simp: check_file_exists_def)
    then show ?thesis using f False
      by (auto simp: first_def split: sum.splits option.splits dest: append_write_keeps)
  qed
  then have q: "isfile fs_page p" using p by (simp add: isfile_def)
  show ?thesis
  proof (cases "check_file_exists fs_page local_html_file")
    case False
    then show ?thesis using m f k unfolding main_def first_def[symmetric] by simp
  next
    case True
    then obtain html where r: "read_a_file w fs_page local_html_file = Inr html"
      using m f unfolding main_def first_def[symmetric]
      by (cases "read_a_file w fs_page local_html_file") auto
    obtain cs fs_end where l: "download_loop w download_dir_PDFs (parse_html w html) fs_page = (cs, fs_end)"
      by (cases "download_loop w download_dir_PDFs (parse_html w html) fs_page")
    have "fs' = fs_end" using m f True r l unfolding main_def first_def[symmetric]
      by (cases "raised cs") auto
    then have "fs' = snd (download_loop w download_dir_PDFs (parse_html w html) fs_page)"
      using l by simp
    then show ?thesis using download_loop_keeps[OF q] k by simp
  qed
qed

lemma try_gate:
  assumes "requests_get w url True = Inr response" "raise_for_status response = Inr ()"
    "\<not> str_in ''application/pdf'' (lower (headers_get (headers response) ''Content-Type'' []))"
  shows "download_pdf_try w url download_dir fs = (print_line w (SkippedNotPdf url), fs)"
  using assms by (simp add: download_pdf_try_def)

lemma try_skipped_not_pdf:
  assumes "fst (download_pdf_try w url download_dir fs) = Inr (SkippedNotPdf u)"
  shows "snd (download_pdf_try w url download_dir fs) = fs"
  using assms unfolding download_pdf_try_def Let_def
  by (auto split: sum.splits option.splits if_splits simp: print_line_Inr)

lemma try_existing:
  assumes "requests_get w url True = Inr response" "raise_for_status response = Inr ()"
    "str_in ''application/pdf'' (lower (headers_get (headers response) ''Content-Type'' []))"
    "resolve_filename w (headers_get (headers response) ''Content-Disposition'' []) url = Inr raw_filename"
    "makedirs w fs download_dir = Inr fs_dir"
    "path_exists fs_dir (path_join download_dir (sanitize raw_filename))"
  shows "download_pdf_try w url download_dir fs
     = (print_line w (SkippedExisting (sanitize raw_filename)), fs_dir)"
  using assms by (simp add: download_pdf_try_def)

lemma try_get_error:
  "requests_get w url True = Inl e \<Longrightarrow> download_pdf_try w url d fs = (Inl e, fs)"
  by (simp add: download_pdf_try_def)

lemma try_status_error:
  "requests_get w url True = Inr response \<Longrightarrow> 400 \<le> status_code response
   \<Longrightarrow> status_code response < 600
   \<Longrightarrow> download_pdf_try w url d fs = (Inl (HTTPError (status_code response)), fs)"
  by (simp add: download_pdf_try_def raise_for_status_def)

section \<open>The claims\<close>

text \<open>
  Claim C1, as amended.  For every filename that the resolution of \<open>download_pdf\<close>
  produces, from the extended parameter, the simple parameter or the URL, the sanitized
  name is a stem followed by an extension, where the stem, the part before the last dot,
  has only lower-case letters, digits and underscores, no two underscores in a row and
  none at either end, and the extension is the one \<open>os.path.splitext\<close> finds in the
  filename before sanitization, lower-cased.  The sanitized name is empty exactly when
  that extension is empty and the stem has no ASCII letter or digit; it is never empty
  when the filename came from the URL.
\<close>

theorem sanitized_filename_shape:
  assumes "resolve_filename w content_disposition url = Inr filename"
  shows "sanitize filename = stem_of (sanitize filename) @ extension_of (sanitize filename)
     \<and> stem_ok (stem_of (sanitize filename))
     \<and> extension_of (sanitize filename) = lower (snd (splitext filename))
     \<and> (sanitize filename = [] \<longleftrightarrow>
          snd (splitext filename) = [] \<and> \<not> list_ex is_az09 (lower (fst (splitext filename))))
     \<and> (re_search filename_star_pattern content_disposition = None
          \<and> re_search filename_pattern content_disposition = None
          \<longrightarrow> sanitize filename \<noteq> [])"
proof -
  have 1: "sanitize filename = stem_of (sanitize filename) @ extension_of (sanitize filename)"
    unfolding stem_of_sanitize extension_of_sanitize
    by (cases "splitext filename") (simp add: sanitize_def)
  have 2: "stem_ok (stem_of (sanitize filename))"
    unfolding stem_of_sanitize by (rule clean_stem_ok)
  have 3: "re_search filename_star_pattern content_disposition = None
          \<and> re_search filename_pattern content_disposition = None
          \<longrightarrow> sanitize filename \<noteq> []"
  proof
    assume "re_search filename_star_pattern content_disposition = None
          \<and> re_search filename_pattern content_disposition = None"
    then have "fallback_filename w url = Inr filename" using assms by (simp add: resolve_filename_def)
    then show "sanitize filename \<noteq> []" by (rule fallback_nonempty)
  qed
  show ?thesis using 1 2 3 extension_of_sanitize sanitize_empty_iff by blast
qed

text \<open>The example of the specification, \<open>My Report (Final).PDF\<close> in a simple parameter.\<close>

theorem sanitized_filename_shape_witness:
  "resolve_filename example_world report_disposition ''https://mydentitycolor.com/docs/a.pdf''
     = Inr ''My Report (Final).PDF''
   \<and> sanitize ''My Report (Final).PDF'' = ''my_report_final.pdf''
   \<and> stem_ok (stem_of (sanitize ''My Report (Final).PDF''))
   \<and> extension_of (sanitize ''My Report (Final).PDF'') = lower (snd (splitext ''My Report (Final).PDF''))"
proof -
  have h: "resolve_filename example_world report_disposition ''https://mydentitycolor.com/docs/a.pdf''
     = Inr ''My Report (Final).PDF''" by code_simp
  have v: "sanitize ''My Report (Final).PDF'' = ''my_report_final.pdf''" by code_simp
  from sanitized_filename_shape[OF h] h v show ?thesis by blast
qed

text \<open>
  Claim C1 as stated says that the sanitized name is never empty.  The header value
  \<open>attachment; filename="___"\<close> resolves to a filename of three underscores, and its
  sanitized form is the empty string.
\<close>

theorem empty_sanitized_filename_counterexample:
  "resolve_filename example_world underscore_disposition ''https://mydentitycolor.com/docs/a.pdf''
     = Inr ''___''
   \<and> sanitize ''___'' = []"
  by code_simp

text \<open>
  Claim C2, as amended.  The loop of the driver goes through the extracted links in
  document order and skips every link that is already a valid absolute URL.  The calls
  of the downloader are, in order, the first of the links that \<open>validate_url\<close> rejects,
  each prefixed with the fixed site origin; they are all of those links when no call
  raises, and no call raises when \<open>print\<close> does not.
\<close>

theorem download_loop_prefixes_invalid_links:
  "map fst (fst (download_loop w download_dir links fs)) =
     take (length (fst (download_loop w download_dir links fs)))
       (map (\<lambda>url. site_origin @ url) (filter (\<lambda>url. \<not> validate_url w url) links))
   \<and> (raised (fst (download_loop w download_dir links fs)) = None \<longrightarrow>
        map fst (fst (download_loop w download_dir links fs)) =
          map (\<lambda>url. site_origin @ url) (filter (\<lambda>url. \<not> validate_url w url) links))
   \<and> ((\<forall>line. print_error w line = None) \<longrightarrow>
        raised (fst (download_loop w download_dir links fs)) = None)"
  using download_loop_prefix download_loop_all download_loop_not_raised by blast

text \<open>Of two relative links and an absolute one, the two relative ones are downloaded.\<close>

theorem download_loop_prefixes_invalid_links_witness:
  "(\<forall>line. print_error example_world line = None)
   \<and> raised (fst (download_loop example_world ''PDFs''
        [''/docs/Report%2C1.pdf'', ''https://example.com/a.pdf'', ''/b.pdf''] empty_filesystem)) = None
   \<and> map fst (fst (download_loop example_world ''PDFs''
        [''/docs/Report%2C1.pdf'', ''https://example.com/a.pdf'', ''/b.pdf''] empty_filesystem))
     = [''https://mydentitycolor.com/docs/Report%2C1.pdf'', ''https://mydentitycolor.com/b.pdf'']"
proof -
  let ?links = "[''/docs/Report%2C1.pdf'', ''https://example.com/a.pdf'', ''/b.pdf'']"
  have p: "\<forall>line. print_error example_world line = None"
    by (simp add: example_world_def)
  have r: "map (\<lambda>url. site_origin @ url) (filter (\<lambda>url. \<not> validate_url example_world url) ?links)
    = [''https://mydentitycolor.com/docs/Report%2C1.pdf'', ''https://mydentitycolor.com/b.pdf'']"
    by code_simp
  note t = download_loop_prefixes_invalid_links[where w = example_world and download_dir = "''PDFs''"
      and links = ?links and fs = empty_filesystem]
  have n: "raised (fst (download_loop example_world ''PDFs'' ?links empty_filesystem)) = None"
    using t p by blast
  have "map fst (fst (download_loop example_world ''PDFs'' ?links empty_filesystem))
     = map (\<lambda>url. site_origin @ url) (filter (\<lambda>url. \<not> validate_url example_world url) ?links)"
    using t n by blast
  then show ?thesis using p n r by simp
qed

text \<open>
  Claim C2 as stated says that every link that is not a valid absolute URL is passed to
  the downloader.  On a console that encodes ASCII only, the status line of the first
  download cannot be printed, in the body and again in the handler; the exception leaves
  \<open>download_pdf\<close> and ends the loop, and the second relative link is never passed.
\<close>

theorem loop_ends_at_raising_call_counterexample:
  "validate_url ascii_console_world ''/b.pdf'' = False
   \<and> map fst (fst (download_loop ascii_console_world ''PDFs''
        [''/docs/Report%2C1.pdf'', ''/b.pdf''] empty_filesystem))
     = [''https://mydentitycolor.com/docs/Report%2C1.pdf'']
   \<and> raised (fst (download_loop ascii_console_world ''PDFs''
        [''/docs/Report%2C1.pdf'', ''/b.pdf''] empty_filesystem))
     = Some (ValueError ''UnicodeEncodeError'')"
  by code_simp

text \<open>
  Claim C3 says that, when no parameter of Content-Disposition matches, \<open>.pdf\<close> is added
  to the last path segment of the URL exactly when the segment does not end in \<open>.pdf\<close>,
  compared without regard to case.  The test in line 112 regards case: the segment
  \<open>GUIDE.PDF\<close> ends in \<open>.pdf\<close> once lower-cased, and the program still adds \<open>.pdf\<close>.
  The example of the claim, \<open>guide\<close>, does give \<open>guide.pdf\<close>.
\<close>

theorem fallback_suffix_test_is_case_sensitive:
  "resolve_filename example_world [] ''https://example.com/files/GUIDE.PDF'' = Inr ''GUIDE.PDF.pdf''
   \<and> endswith (lower ''GUIDE.PDF'') ''.pdf''
   \<and> resolve_filename example_world [] ''https://example.com/files/guide'' = Inr ''guide.pdf''"
  by code_simp

text \<open>
  Claim C4.  For every HTML input, \<open>parse_html\<close> returns the \<open>href\<close> values of the
  anchor elements as the parser gives them, not percent-decoded, in document order and
  with duplicates, keeping a value exactly when its percent-decoded form, lower-cased,
  ends with \<open>.pdf\<close>.
\<close>

theorem parse_html_keeps_pdf_hrefs:
  "parse_html w html =
     filter (\<lambda>href. endswith (lower (unquote href)) ''.pdf'') (find_all_a_href w html)"
  by (simp add: parse_html_def parse_html_loop_filter)

text \<open>The page of the specification's example, whose two anchors the parser of the
  example world returns: only the first link is kept, in its encoded form.\<close>

theorem parse_html_keeps_pdf_hrefs_witness:
  "find_all_a_href example_world example_page = [''/docs/Report%2C1.pdf'', ''/img.png'']
   \<and> parse_html example_world example_page = [''/docs/Report%2C1.pdf'']"
proof -
  have p: "find_all_a_href example_world example_page = [''/docs/Report%2C1.pdf'', ''/img.png'']"
    by (simp add: example_world_def)
  have r: "filter (\<lambda>href. endswith (lower (unquote href)) ''.pdf'')
      [''/docs/Report%2C1.pdf'', ''/img.png''] = [''/docs/Report%2C1.pdf'']"
    by code_simp
  have "parse_html example_world example_page = [''/docs/Report%2C1.pdf'']"
    using parse_html_keeps_pdf_hrefs[of example_world example_page] unfolding p r .
  then show ?thesis using p by simp
qed

text \<open>
  Claim C5.  When the request has returned a response that passed the status check, and
  the Content-Type header of the response, lower-cased, does not contain
  \<open>application/pdf\<close> (an absent header reads as the empty string), \<open>download_pdf\<close>
  prints the not-a-PDF message, where that line can be printed, and no file is created or
  written.  This holds for every URL and every Content-Disposition, also those for which
  the filename resolution would raise: the function returns before it.
\<close>

theorem content_type_gate:
  assumes "requests_get w url True = Inr response"
    and "raise_for_status response = Inr ()"
    and "\<not> str_in ''application/pdf'' (lower (headers_get (headers response) ''Content-Type'' []))"
  shows "(print_error w (SkippedNotPdf url) = None \<longrightarrow>
            fst (download_pdf w url download_dir fs) = Inr (SkippedNotPdf url))
     \<and> files (snd (download_pdf w url download_dir fs)) = files fs"
  using try_gate[OF assms, of download_dir fs]
  by (simp add: download_pdf_snd download_pdf_fst print_line_def)

text \<open>A URL that ends in \<open>.pdf\<close> and is answered with \<open>text/html\<close>.\<close>

theorem content_type_gate_witness:
  "print_error example_world (SkippedNotPdf ''https://mydentitycolor.com/b.pdf'') = None
   \<and> fst (download_pdf example_world ''https://mydentitycolor.com/b.pdf'' ''PDFs'' empty_filesystem)
     = Inr (SkippedNotPdf ''https://mydentitycolor.com/b.pdf'')
   \<and> files (snd (download_pdf example_world ''https://mydentitycolor.com/b.pdf'' ''PDFs'' empty_filesystem))
     = files empty_filesystem"
proof -
  have 1: "requests_get example_world ''https://mydentitycolor.com/b.pdf'' True
      = Inr (example_response 200 ''text/html'')"
    by (simp add: example_world_def example_get_def)
  have 2: "raise_for_status (example_response 200 ''text/html'') = Inr ()"
    by (simp add: raise_for_status_def example_response_def)
  have 3: "\<not> str_in ''application/pdf''
      (lower (headers_get (headers (example_response 200 ''text/html'')) ''Content-Type'' []))"
    by code_simp
  have 4: "print_error example_world (SkippedNotPdf ''https://mydentitycolor.com/b.pdf'') = None"
    by (simp add: example_world_def)
  from content_type_gate[OF 1 2 3, of "''PDFs''" empty_filesystem] 4 show ?thesis by blast
qed

text \<open>
  Claim C6.  When the extended pattern \<open>filename*=charset''value\<close> matches the
  Content-Disposition value, the filename is its captured value, stripped of double quotes
  at both ends, whether or not the simple pattern matches too; the captured value of the
  simple pattern is used only when the extended pattern does not match.
\<close>

theorem extended_parameter_wins:
  "(re_search filename_star_pattern content_disposition = Some v
      \<longrightarrow> resolve_filename w content_disposition url = Inr (strip v CHR 0x22))
   \<and> (re_search filename_star_pattern content_disposition = None
      \<and> re_search filename_pattern content_disposition = Some v'
      \<longrightarrow> resolve_filename w content_disposition url = Inr (strip v' CHR 0x22))"
  by (simp add: resolve_filename_def)

text \<open>The header of the specification's example, with both parameters, and a header
  with the simple parameter only.\<close>

theorem extended_parameter_wins_witness:
  "re_search filename_star_pattern example_disposition = Some ''relatorio.pdf''
   \<and> re_search filename_pattern example_disposition = Some ''other.pdf''
   \<and> resolve_filename example_world example_disposition ''https://mydentitycolor.com/docs/a.pdf''
       = Inr (strip ''relatorio.pdf'' CHR 0x22)
   \<and> re_search filename_star_pattern report_disposition = None
   \<and> re_search filename_pattern report_disposition = Some ''My Report (Final).PDF''
   \<and> resolve_filename example_world report_disposition ''https://mydentitycolor.com/docs/a.pdf''
       = Inr (strip ''My Report (Final).PDF'' CHR 0x22)"
proof -
  have 1: "re_search filename_star_pattern example_disposition = Some ''relatorio.pdf''" by code_simp
  have 2: "re_search filename_pattern example_disposition = Some ''other.pdf''" by code_simp
  have 3: "re_search filename_star_pattern report_disposition = None" by code_simp
  have 4: "re_search filename_pattern report_disposition = Some ''My Report (Final).PDF''" by code_simp
  from extended_parameter_wins[where content_disposition = example_disposition
      and v = "''relatorio.pdf''" and w = example_world
      and url = "''https://mydentitycolor.com/docs/a.pdf''"]
    extended_parameter_wins[where content_disposition = report_disposition
      and v' = "''My Report (Final).PDF''" and w = example_world
      and url = "''https://mydentitycolor.com/docs/a.pdf''"]
    1 2 3 4
  show ?thesis by blast
qed

text \<open>
  Claim C7.  When a download attempt has resolved its target path and the path exists,
  \<open>download_pdf\<close> prints the already-exists message, where that line can be printed, and
  leaves the contents of every file as they were.  More generally no call of
  \<open>download_pdf\<close> and no run of the loop, returning or raising, changes a file that
  exists, and so a second run of \<open>main\<close>, in whatever world, leaves every file as the
  first run left it.
\<close>

theorem existing_file_is_skipped:
  "(requests_get w url True = Inr response \<and> raise_for_status response = Inr ()
      \<and> str_in ''application/pdf'' (lower (headers_get (headers response) ''Content-Type'' []))
      \<and> resolve_filename w (headers_get (headers response) ''Content-Disposition'' []) url = Inr raw_filename
      \<and> makedirs w fs download_dir = Inr fs_dir
      \<and> path_exists fs_dir (path_join download_dir (sanitize raw_filename))
      \<longrightarrow> (print_error w (SkippedExisting (sanitize raw_filename)) = None \<longrightarrow>
             download_pdf w url download_dir fs = (Inr (SkippedExisting (sanitize raw_filename)), fs_dir))
          \<and> snd (download_pdf w url download_dir fs) = fs_dir
          \<and> files fs_dir = files fs)
   \<and> (isfile fs p \<longrightarrow> files (snd (download_pdf w url download_dir fs)) p = files fs p)
   \<and> (isfile fs p \<longrightarrow> files (snd (download_loop w download_dir links fs)) p = files fs p)
   \<and> (main w fs = Inr (calls, fs') \<and> main w' fs' = Inr (calls', fs'') \<and> isfile fs' p
      \<longrightarrow> files fs'' p = files fs' p)"
proof -
  have 1: "requests_get w url True = Inr response \<and> raise_for_status response = Inr ()
      \<and> str_in ''application/pdf'' (lower (headers_get (headers response) ''Content-Type'' []))
      \<and> resolve_filename w (headers_get (headers response) ''Content-Disposition'' []) url = Inr raw_filename
      \<and> makedirs w fs download_dir = Inr fs_dir
      \<and> path_exists fs_dir (path_join download_dir (sanitize raw_filename))
      \<longrightarrow> (print_error w (SkippedExisting (sanitize raw_filename)) = None \<longrightarrow>
             download_pdf w url download_dir fs = (Inr (SkippedExisting (sanitize raw_filename)), fs_dir))
          \<and> snd (download_pdf w url download_dir fs) = fs_dir
          \<and> files fs_dir = files fs"
  proof
    assume a: "requests_get w url True = Inr response \<and> raise_for_status response = Inr ()
      \<and> str_in ''application/pdf'' (lower (headers_get (headers response) ''Content-Type'' []))
      \<and> resolve_filename w (headers_get (headers response) ''Content-Disposition'' []) url = Inr raw_filename
      \<and> makedirs w fs download_dir = Inr fs_dir
      \<and> path_exists fs_dir (path_join download_dir (sanitize raw_filename))"
    then have t: "download_pdf_try w url download_dir fs
        = (print_line w (SkippedExisting (sanitize raw_filename)), fs_dir)"
      by (intro try_existing) auto
    have x: "print_error w (SkippedExisting (sanitize raw_filename)) = None \<longrightarrow>
        download_pdf w url download_dir fs = (Inr (SkippedExisting (sanitize raw_filename)), fs_dir)"
      using t by (simp add: download_pdf_def print_line_def)
    have y: "snd (download_pdf w url download_dir fs) = fs_dir"
      using t by (simp add: download_pdf_snd)
    have z: "files fs_dir = files fs" using a makedirs_files by blast
    show "(print_error w (SkippedExisting (sanitize raw_filename)) = None \<longrightarrow>
             download_pdf w url download_dir fs = (Inr (SkippedExisting (sanitize raw_filename)), fs_dir))
          \<and> snd (download_pdf w url download_dir fs) = fs_dir
          \<and> files fs_dir = files fs"
      using x y z by blast
  qed
  have 2: "isfile fs p \<longrightarrow> files (snd (download_pdf w url download_dir fs)) p = files fs p"
    using download_pdf_keeps by blast
  have 3: "isfile fs p \<longrightarrow> files (snd (download_loop w download_dir links fs)) p = files fs p"
    using download_loop_keeps by blast
  have 4: "main w fs = Inr (calls, fs') \<and> main w' fs' = Inr (calls', fs'') \<and> isfile fs' p
      \<longrightarrow> files fs'' p = files fs' p"
    using main_keeps by blast
  show ?thesis using 1 2 3 4 by blast
qed

text \<open>A download onto an existing file, and two runs of the pipeline from an empty file
  system: the file that the first run writes is there, unchanged, after the second.\<close>

theorem existing_file_is_skipped_witness:
  "download_pdf example_world ''https://mydentitycolor.com/docs/Report%2C1.pdf'' ''PDFs''
       downloaded_filesystem
     = (Inr (SkippedExisting (sanitize ''Report%2C1.pdf'')),
        downloaded_filesystem\<lparr>dirs := insert ''PDFs'' (dirs downloaded_filesystem)\<rparr>)
   \<and> files (snd (download_pdf example_world ''https://mydentitycolor.com/docs/Report%2C1.pdf''
        ''PDFs'' downloaded_filesystem)) ''PDFs/report_2c1.pdf'' = Some ''%PDF-1.3''
   \<and> files (snd (download_loop ascii_console_world ''PDFs'' [''/docs/Report%2C1.pdf'']
        downloaded_filesystem)) ''PDFs/report_2c1.pdf'' = Some ''%PDF-1.3''
   \<and> (case main example_world empty_filesystem of
         Inl e \<Rightarrow> False
       | Inr (calls, fs') \<Rightarrow>
           files fs' ''PDFs/report_2c1.pdf'' = Some ''%PDF-1.4''
           \<and> (case main example_world fs' of
                  Inl e \<Rightarrow> False
                | Inr (calls', fs'') \<Rightarrow> files fs'' ''PDFs/report_2c1.pdf'' = Some ''%PDF-1.4''))"
proof -
  let ?url = "''https://mydentitycolor.com/docs/Report%2C1.pdf''"
  let ?r = "example_response 200 ''Application/PDF''"
  let ?fs1 = "downloaded_filesystem\<lparr>dirs := insert ''PDFs'' (dirs downloaded_filesystem)\<rparr>"
  have h1: "requests_get example_world ?url True = Inr ?r"
    by (simp add: example_world_def example_get_def)
  have h2: "raise_for_status ?r = Inr ()"
    by (simp add: raise_for_status_def example_response_def)
  have h3: "str_in ''application/pdf'' (lower (headers_get (headers ?r) ''Content-Type'' []))"
    by code_simp
  have h4: "resolve_filename example_world (headers_get (headers ?r) ''Content-Disposition'' []) ?url
      = Inr ''Report%2C1.pdf''"
    by code_simp
  have h5: "makedirs example_world downloaded_filesystem ''PDFs'' = Inr ?fs1"
    by (simp add: makedirs_def example_world_def isfile_def downloaded_filesystem_def)
  have h6: "path_exists ?fs1 (path_join ''PDFs'' (sanitize ''Report%2C1.pdf''))"
    by code_simp
  have h7: "print_error example_world (SkippedExisting (sanitize ''Report%2C1.pdf'')) = None"
    by (simp add: example_world_def)
  have p: "isfile downloaded_filesystem ''PDFs/report_2c1.pdf''"
    by (simp add: isfile_def downloaded_filesystem_def)
  have old: "files downloaded_filesystem ''PDFs/report_2c1.pdf'' = Some ''%PDF-1.3''"
    by (simp add: downloaded_filesystem_def)
  obtain calls fs' where m1: "main example_world empty_filesystem = Inr (calls, fs')"
    and f1: "files fs' ''PDFs/report_2c1.pdf'' = Some ''%PDF-1.4''"
  proof -
    have "case main example_world empty_filesystem of
            Inr (c, fs) \<Rightarrow> files fs ''PDFs/report_2c1.pdf'' = Some ''%PDF-1.4'' | Inl e \<Rightarrow> False"
      by code_simp
    then show ?thesis using that by (auto split: sum.splits)
  qed
  obtain calls' fs'' where m2: "main example_world fs' = Inr (calls', fs'')"
  proof -
    have "case main example_world empty_filesystem of
            Inr (c, fs) \<Rightarrow> (case main example_world fs of Inr x \<Rightarrow> True | Inl e \<Rightarrow> False)
          | Inl e \<Rightarrow> False"
      by code_simp
    then show ?thesis using that m1 by (auto split: sum.splits)
  qed
  have q: "isfile fs' ''PDFs/report_2c1.pdf''" using f1 by (simp add: isfile_def)
  note t = existing_file_is_skipped[where w = example_world and url = ?url and response = ?r
      and raw_filename = "''Report%2C1.pdf''" and fs = downloaded_filesystem and download_dir = "''PDFs''"
      and fs_dir = ?fs1 and p = "''PDFs/report_2c1.pdf''" and w' = example_world
      and calls = calls and fs' = fs' and calls' = calls' and fs'' = fs'']
  have a: "download_pdf example_world ?url ''PDFs'' downloaded_filesystem
       = (Inr (SkippedExisting (sanitize ''Report%2C1.pdf'')), ?fs1)"
    using t h1 h2 h3 h4 h5 h6 h7 by blast
  have b: "files (snd (download_pdf example_world ?url ''PDFs'' downloaded_filesystem))
        ''PDFs/report_2c1.pdf'' = Some ''%PDF-1.3''"
    using t p old by simp
  have l: "files (snd (download_loop ascii_console_world ''PDFs'' [''/docs/Report%2C1.pdf'']
        downloaded_filesystem)) ''PDFs/report_2c1.pdf'' = Some ''%PDF-1.3''"
    using existing_file_is_skipped[where w = ascii_console_world and fs = downloaded_filesystem
        and download_dir = "''PDFs''" and links = "[''/docs/Report%2C1.pdf'']"
        and p = "''PDFs/report_2c1.pdf''"] p old by simp
  have c: "files fs'' ''PDFs/report_2c1.pdf'' = Some ''%PDF-1.4''"
    using existing_file_is_skipped[where w = example_world and fs = empty_filesystem
        and w' = example_world and calls = calls and fs' = fs' and calls' = calls' and fs'' = fs''
        and p = "''PDFs/report_2c1.pdf''"] m1 m2 q f1 by simp
  show ?thesis using a b l c m1 m2 f1 by simp
qed

text \<open>
  Claim C8 as stated counts every status outside 2xx as a failure of the fetch.  A
  response with status 304 passes \<open>raise_for_status\<close>, which raises from 400 to 599 only,
  and goes on to the content-type gate.
\<close>

theorem status_304_counterexample:
  "(case requests_get example_world ''https://mydentitycolor.com/c.pdf'' True of
      Inl e \<Rightarrow> False
    | Inr response \<Rightarrow> status_code response = 304)
   \<and> fst (download_pdf example_world ''https://mydentitycolor.com/c.pdf'' ''PDFs'' empty_filesystem)
       = Inr (SkippedNotPdf ''https://mydentitycolor.com/c.pdf'')"
  by code_simp

text \<open>
  Claim C8, as amended.  Every exception below \<open>Exception\<close> that the body of
  \<open>download_pdf\<close> raises is caught: a request exception, from the fetch (connection error,
  timeout), from a status from 400 to 599 or from the body stream, gives the
  request-failed line, every other exception the unexpected-error line.  Where that line
  can be printed, \<open>download_pdf\<close> returns and the loop of the driver goes on to the next
  link, whatever was printed.  An exception leaves \<open>download_pdf\<close> exactly when \<open>print\<close>
  raises it in a handler; that call is then the last of the loop.  Where \<open>print\<close> never
  raises, \<open>download_pdf\<close> returns for every input.
\<close>

theorem download_pdf_reports_every_failure:
  "(requests_get w url True = Inl e \<and> is_request_exception e
      \<and> print_error w (FetchFailed e) = None
      \<longrightarrow> fst (download_pdf w url download_dir fs) = Inr (FetchFailed e))
   \<and> (requests_get w url True = Inr response
        \<and> 400 \<le> status_code response \<and> status_code response < 600
        \<and> print_error w (FetchFailed (HTTPError (status_code response))) = None
      \<longrightarrow> fst (download_pdf w url download_dir fs)
            = Inr (FetchFailed (HTTPError (status_code response))))
   \<and> (fst (download_pdf_try w url download_dir fs) = Inl e' \<and> is_request_exception e'
        \<and> print_error w (FetchFailed e') = None
      \<longrightarrow> fst (download_pdf w url download_dir fs) = Inr (FetchFailed e'))
   \<and> (fst (download_pdf_try w url download_dir fs) = Inl e' \<and> \<not> is_request_exception e'
        \<and> print_error w (UnexpectedError e') = None
      \<longrightarrow> fst (download_pdf w url download_dir fs) = Inr (UnexpectedError e'))
   \<and> ((\<forall>line. print_error w line = None) \<longrightarrow> fst (download_pdf w url download_dir fs) \<noteq> Inl x)
   \<and> (fst (download_pdf w url download_dir fs) = Inl x
      \<longrightarrow> (\<exists>e. fst (download_pdf_try w url download_dir fs) = Inl e
             \<and> print_error w (if is_request_exception e then FetchFailed e else UnexpectedError e)
                 = Some x))
   \<and> (\<not> validate_url w link \<and> download_pdf w (site_origin @ link) download_dir fs = (Inr r, fs')
      \<longrightarrow> download_loop w download_dir (link # links) fs
            = ((site_origin @ link, Inr r) # fst (download_loop w download_dir links fs'),
               snd (download_loop w download_dir links fs')))
   \<and> (\<not> validate_url w link \<and> download_pdf w (site_origin @ link) download_dir fs = (Inl x, fs')
      \<longrightarrow> download_loop w download_dir (link # links) fs = ([(site_origin @ link, Inl x)], fs'))"
proof -
  have 1: "requests_get w url True = Inl e \<and> is_request_exception e
      \<and> print_error w (FetchFailed e) = None
      \<longrightarrow> fst (download_pdf w url download_dir fs) = Inr (FetchFailed e)"
    by (auto simp: download_pdf_fst try_get_error print_line_def)
  have 2: "requests_get w url True = Inr response
        \<and> 400 \<le> status_code response \<and> status_code response < 600
        \<and> print_error w (FetchFailed (HTTPError (status_code response))) = None
      \<longrightarrow> fst (download_pdf w url download_dir fs)
            = Inr (FetchFailed (HTTPError (status_code response)))"
    by (auto simp: download_pdf_fst try_status_error print_line_def)
  have 3: "fst (download_pdf_try w url download_dir fs) = Inl e' \<and> is_request_exception e'
        \<and> print_error w (FetchFailed e') = None
      \<longrightarrow> fst (download_pdf w url download_dir fs) = Inr (FetchFailed e')"
    by (auto simp: download_pdf_fst print_line_def)
  have 4: "fst (download_pdf_try w url download_dir fs) = Inl e' \<and> \<not> is_request_exception e'
        \<and> print_error w (UnexpectedError e') = None
      \<longrightarrow> fst (download_pdf w url download_dir fs) = Inr (UnexpectedError e')"
    by (auto simp: download_pdf_fst print_line_def)
  have 5: "(\<forall>line. print_error w line = None) \<longrightarrow> fst (download_pdf w url download_dir fs) \<noteq> Inl x"
    using download_pdf_returns by blast
  have 6: "fst (download_pdf w url download_dir fs) = Inl x
      \<longrightarrow> (\<exists>e. fst (download_pdf_try w url download_dir fs) = Inl e
             \<and> print_error w (if is_request_exception e then FetchFailed e else UnexpectedError e)
                 = Some x)"
    using download_pdf_raises by blast
  have 7: "\<not> validate_url w link \<and> download_pdf w (site_origin @ link) download_dir fs = (Inr r, fs')
      \<longrightarrow> download_loop w download_dir (link # links) fs
            = ((site_origin @ link, Inr r) # fst (download_loop w download_dir links fs'),
               snd (download_loop w download_dir links fs'))"
    using download_loop_step_returned by blast
  have 8: "\<not> validate_url w link \<and> download_pdf w (site_origin @ link) download_dir fs = (Inl x, fs')
      \<longrightarrow> download_loop w download_dir (link # links) fs = ([(site_origin @ link, Inl x)], fs')"
    using download_loop_step_raised by blast
  show ?thesis using 1 2 3 4 5 6 7 8 by blast
qed

text \<open>An unreachable host, a status 404, a body that breaks off and an exception of
  another class, each reported, and followed in the loop by a link that is downloaded;
  and a console on which the line of the handler cannot be printed.\<close>

theorem download_pdf_reports_every_failure_witness:
  "fst (download_pdf example_world ''https://mydentitycolor.com/f.pdf'' ''PDFs'' empty_filesystem)
     = Inr (FetchFailed (RequestException ''ConnectionError''))
   \<and> fst (download_pdf example_world ''https://mydentitycolor.com/d.pdf'' ''PDFs'' empty_filesystem)
     = Inr (FetchFailed (HTTPError 404))
   \<and> fst (download_pdf example_world ''https://mydentitycolor.com/g.pdf'' ''PDFs'' empty_filesystem)
     = Inr (FetchFailed (RequestException ''ChunkedEncodingError''))
   \<and> fst (download_pdf example_world ''https://mydentitycolor.com/e.pdf'' ''PDFs'' empty_filesystem)
     = Inr (UnexpectedError (Exception ''UnicodeError''))
   \<and> fst (download_pdf example_world ''https://mydentitycolor.com/b.pdf'' ''PDFs'' empty_filesystem)
     \<noteq> Inl (ValueError ''UnicodeEncodeError'')
   \<and> fst (download_pdf ascii_console_world ''https://mydentitycolor.com/f.pdf'' ''PDFs'' empty_filesystem)
     = Inl (ValueError ''UnicodeEncodeError'')
   \<and> print_error ascii_console_world (FetchFailed (RequestException ''ConnectionError''))
     = Some (ValueError ''UnicodeEncodeError'')
   \<and> download_loop example_world ''PDFs'' [''/f.pdf'', ''/docs/Report%2C1.pdf''] empty_filesystem
     = ((''https://mydentitycolor.com/f.pdf'', Inr (FetchFailed (RequestException ''ConnectionError'')))
          # fst (download_loop example_world ''PDFs'' [''/docs/Report%2C1.pdf''] empty_filesystem),
        snd (download_loop example_world ''PDFs'' [''/docs/Report%2C1.pdf''] empty_filesystem))
   \<and> map snd (fst (download_loop example_world ''PDFs'' [''/docs/Report%2C1.pdf''] empty_filesystem))
     = [Inr (Downloaded ''report_2c1.pdf'')]
   \<and> download_loop ascii_console_world ''PDFs'' [''/f.pdf'', ''/docs/Report%2C1.pdf''] empty_filesystem
     = ([(''https://mydentitycolor.com/f.pdf'', Inl (ValueError ''UnicodeEncodeError''))],
        empty_filesystem)"
proof -
  let ?f = "''https://mydentitycolor.com/f.pdf''"
  have pe: "\<forall>line. print_error example_world line = None" by (simp add: example_world_def)
  have g1: "requests_get example_world ?f True = Inl (RequestException ''ConnectionError'')"
    by (simp add: example_world_def example_get_def)
  have g2: "requests_get example_world ''https://mydentitycolor.com/d.pdf'' True
      = Inr (example_response 404 ''text/html'')"
    by (simp add: example_world_def example_get_def)
  have s2: "status_code (example_response 404 ''text/html'') = 404"
    by (simp add: example_response_def)
  have g3: "fst (download_pdf_try example_world ''https://mydentitycolor.com/g.pdf'' ''PDFs''
      empty_filesystem) = Inl (RequestException ''ChunkedEncodingError'')"
    by code_simp
  have g4: "fst (download_pdf_try example_world ''https://mydentitycolor.com/e.pdf'' ''PDFs''
      empty_filesystem) = Inl (Exception ''UnicodeError'')"
    by (simp add: download_pdf_try_def example_world_def example_get_def)
  have v: "\<not> validate_url example_world ''/f.pdf''" by code_simp
  have va: "\<not> validate_url ascii_console_world ''/f.pdf''" by code_simp
  have o: "site_origin @ ''/f.pdf'' = ?f" by (simp add: site_origin_def)
  have a: "fst (download_pdf example_world ?f ''PDFs'' empty_filesystem)
     = Inr (FetchFailed (RequestException ''ConnectionError''))"
    using download_pdf_reports_every_failure[where w = example_world and url = ?f
        and e = "RequestException ''ConnectionError''"] g1 pe by simp
  have b: "fst (download_pdf example_world ''https://mydentitycolor.com/d.pdf'' ''PDFs'' empty_filesystem)
     = Inr (FetchFailed (HTTPError 404))"
    using download_pdf_reports_every_failure[where w = example_world
        and url = "''https://mydentitycolor.com/d.pdf''"
        and response = "example_response 404 ''text/html''"] g2 s2 pe by simp
  have c: "fst (download_pdf example_world ''https://mydentitycolor.com/g.pdf'' ''PDFs'' empty_filesystem)
     = Inr (FetchFailed (RequestException ''ChunkedEncodingError''))"
    using download_pdf_reports_every_failure[where w = example_world
        and url = "''https://mydentitycolor.com/g.pdf''" and download_dir = "''PDFs''"
        and fs = empty_filesystem and e' = "RequestException ''ChunkedEncodingError''"] g3 pe by simp
  have d: "fst (download_pdf example_world ''https://mydentitycolor.com/e.pdf'' ''PDFs'' empty_filesystem)
     = Inr (UnexpectedError (Exception ''UnicodeError''))"
    using download_pdf_reports_every_failure[where w = example_world
        and url = "''https://mydentitycolor.com/e.pdf''" and download_dir = "''PDFs''"
        and fs = empty_filesystem and e' = "Exception ''UnicodeError''"] g4 pe by simp
  have n: "fst (download_pdf example_world ''https://mydentitycolor.com/b.pdf'' ''PDFs'' empty_filesystem)
     \<noteq> Inl (ValueError ''UnicodeEncodeError'')"
    using download_pdf_reports_every_failure[where w = example_world
        and url = "''https://mydentitycolor.com/b.pdf''" and download_dir = "''PDFs''"
        and fs = empty_filesystem and x = "ValueError ''UnicodeEncodeError''"] pe by blast
  have x: "download_pdf ascii_console_world ?f ''PDFs'' empty_filesystem
     = (Inl (ValueError ''UnicodeEncodeError''), empty_filesystem)"
    by (simp add: download_pdf_def download_pdf_try_def ascii_console_world_def example_world_def
        example_get_def print_line_def)
  have px: "print_error ascii_console_world (FetchFailed (RequestException ''ConnectionError''))
     = Some (ValueError ''UnicodeEncodeError'')"
    by (simp add: ascii_console_world_def example_world_def)
  have y: "download_pdf example_world ?f ''PDFs'' empty_filesystem
     = (Inr (FetchFailed (RequestException ''ConnectionError'')), empty_filesystem)"
    by (simp add: download_pdf_def download_pdf_try_def example_world_def
        example_get_def print_line_def)
  have l1: "download_loop example_world ''PDFs'' [''/f.pdf'', ''/docs/Report%2C1.pdf''] empty_filesystem
     = ((?f, Inr (FetchFailed (RequestException ''ConnectionError'')))
          # fst (download_loop example_world ''PDFs'' [''/docs/Report%2C1.pdf''] empty_filesystem),
        snd (download_loop example_world ''PDFs'' [''/docs/Report%2C1.pdf''] empty_filesystem))"
    using download_pdf_reports_every_failure[where w = example_world and link = "''/f.pdf''"
        and download_dir = "''PDFs''" and fs = empty_filesystem and fs' = empty_filesystem
        and r = "FetchFailed (RequestException ''ConnectionError'')"
        and links = "[''/docs/Report%2C1.pdf'']"] v y unfolding o by blast
  have l2: "map snd (fst (download_loop example_world ''PDFs'' [''/docs/Report%2C1.pdf''] empty_filesystem))
     = [Inr (Downloaded ''report_2c1.pdf'')]"
    by code_simp
  have l3: "download_loop ascii_console_world ''PDFs'' [''/f.pdf'', ''/docs/Report%2C1.pdf''] empty_filesystem
     = ([(?f, Inl (ValueError ''UnicodeEncodeError''))], empty_filesystem)"
    using download_pdf_reports_every_failure[where w = ascii_console_world and link = "''/f.pdf''"
        and download_dir = "''PDFs''" and fs = empty_filesystem and fs' = empty_filesystem
        and x = "ValueError ''UnicodeEncodeError''"
        and links = "[''/docs/Report%2C1.pdf'']"] va x unfolding o by blast
  have xf: "fst (download_pdf ascii_console_world ?f ''PDFs'' empty_filesystem)
     = Inl (ValueError ''UnicodeEncodeError'')" using x by simp
  show ?thesis using a b c d n xf px l1 l2 l3 by blast
qed

text \<open>
  Claim C9.  When \<open>download_pdf\<close> prints the not-a-PDF message, the file system after
  the call is the file system before it: no file is created and the download directory
  is not created either.  The same holds whenever the content-type gate rejects the
  response, whether or not the message can be printed.
\<close>

theorem rejected_response_leaves_filesystem:
  "(fst (download_pdf w url download_dir fs) = Inr (SkippedNotPdf u)
      \<longrightarrow> snd (download_pdf w url download_dir fs) = fs)
   \<and> (requests_get w url True = Inr response \<and> raise_for_status response = Inr ()
       \<and> \<not> str_in ''application/pdf'' (lower (headers_get (headers response) ''Content-Type'' []))
      \<longrightarrow> snd (download_pdf w url download_dir fs) = fs)"
proof -
  have 1: "fst (download_pdf w url download_dir fs) = Inr (SkippedNotPdf u)
      \<longrightarrow> snd (download_pdf w url download_dir fs) = fs"
  proof
    assume a: "fst (download_pdf w url download_dir fs) = Inr (SkippedNotPdf u)"
    have "fst (download_pdf_try w url download_dir fs) = Inr (SkippedNotPdf u)"
      using a unfolding download_pdf_fst
      by (cases "fst (download_pdf_try w url download_dir fs)")
         (auto simp: print_line_Inr split: if_splits)
    then show "snd (download_pdf w url download_dir fs) = fs"
      unfolding download_pdf_snd by (rule try_skipped_not_pdf)
  qed
  have 2: "requests_get w url True = Inr response \<and> raise_for_status response = Inr ()
       \<and> \<not> str_in ''application/pdf'' (lower (headers_get (headers response) ''Content-Type'' []))
      \<longrightarrow> snd (download_pdf w url download_dir fs) = fs"
    using try_gate[of w url response download_dir fs] by (auto simp: download_pdf_snd)
  show ?thesis using 1 2 by blast
qed

text \<open>The directory \<open>PDFs\<close> is still missing after the rejected response, printed or
  not, and is there after a download.\<close>

theorem rejected_response_leaves_filesystem_witness:
  "fst (download_pdf example_world ''https://mydentitycolor.com/b.pdf'' ''PDFs'' empty_filesystem)
     = Inr (SkippedNotPdf ''https://mydentitycolor.com/b.pdf'')
   \<and> snd (download_pdf example_world ''https://mydentitycolor.com/b.pdf'' ''PDFs'' empty_filesystem)
     = empty_filesystem
   \<and> snd (download_pdf ascii_console_world ''https://mydentitycolor.com/b.pdf'' ''PDFs'' empty_filesystem)
     = empty_filesystem
   \<and> \<not> isdir empty_filesystem ''PDFs''
   \<and> isdir (snd (download_pdf example_world ''https://mydentitycolor.com/docs/Report%2C1.pdf''
        ''PDFs'' empty_filesystem)) ''PDFs''"
proof -
  have h: "fst (download_pdf example_world ''https://mydentitycolor.com/b.pdf'' ''PDFs'' empty_filesystem)
     = Inr (SkippedNotPdf ''https://mydentitycolor.com/b.pdf'')" by code_simp
  have g1: "requests_get ascii_console_world ''https://mydentitycolor.com/b.pdf'' True
      = Inr (example_response 200 ''text/html'')"
    by (simp add: ascii_console_world_def example_world_def example_get_def)
  have g2: "raise_for_status (example_response 200 ''text/html'') = Inr ()"
    by (simp add: raise_for_status_def example_response_def)
  have g3: "\<not> str_in ''application/pdf''
      (lower (headers_get (headers (example_response 200 ''text/html'')) ''Content-Type'' []))"
    by code_simp
  have a: "\<not> isdir empty_filesystem ''PDFs''" by code_simp
  have b: "isdir (snd (download_pdf example_world ''https://mydentitycolor.com/docs/Report%2C1.pdf''
        ''PDFs'' empty_filesystem)) ''PDFs''" by code_simp
  from rejected_response_leaves_filesystem[where w = example_world
      and url = "''https://mydentitycolor.com/b.pdf''" and download_dir = "''PDFs''"
      and fs = empty_filesystem and u = "''https://mydentitycolor.com/b.pdf''"]
    rejected_response_leaves_filesystem[where w = ascii_console_world
      and url = "''https://mydentitycolor.com/b.pdf''" and download_dir = "''PDFs''"
      and fs = empty_filesystem and response = "example_response 200 ''text/html''"]
    h g1 g2 g3 a b
  show ?thesis by blast
qed

text \<open>
  Claim C10, as amended.  Sanitizing a sanitized filename gives it back exactly when the
  sanitized filename does not begin with a dot, that is, unless the stem sanitizes to
  nothing while there is an extension.
\<close>

theorem sanitize_idempotent_iff:
  "sanitize (sanitize filename) = sanitize filename \<longleftrightarrow> \<not> startswith (sanitize filename) ''.''"
  by (rule sanitize_idem_iff)

text \<open>The specification's example is one of the filenames on which a second sanitization
  changes nothing.\<close>

theorem sanitize_idempotent_iff_witness:
  "\<not> startswith (sanitize ''My Report (Final).PDF'') ''.''
   \<and> sanitize (sanitize ''My Report (Final).PDF'') = sanitize ''My Report (Final).PDF''"
proof -
  have h: "\<not> startswith (sanitize ''My Report (Final).PDF'') ''.''" by code_simp
  from sanitize_idempotent_iff[of "''My Report (Final).PDF''"] h show ?thesis by blast
qed

text \<open>
  Claim C10 as stated says that sanitization is idempotent on every filename.  \<open>_.pdf\<close>
  becomes \<open>.pdf\<close>; there the dot leads the name, \<open>os.path.splitext\<close> finds no
  extension, and a second sanitization gives \<open>pdf\<close>.
\<close>

theorem sanitize_not_idempotent_counterexample:
  "sanitize ''_.pdf'' = ''.pdf'' \<and> sanitize (sanitize ''_.pdf'') = ''pdf''"
  by code_simp

end
